theory Spec2Isabelle
  imports Complex_Main "HOL-Library.Multiset" "HOL-Library.Product_Lexorder"
begin

section \<open>Errors and floating-point values\<close>

text \<open>
  The Python exceptions that the modelled functions can raise.  An \<^verbatim>\<open>assert\<close> that
  fails raises \<open>AssertionError\<close>; numpy raises \<open>ValueError\<close> for shapes that do not
  fit (\<^verbatim>\<open>np.inner\<close>, broadcasting, a negative pad width) and Python raises it for
  \<^verbatim>\<open>range\<close> with step 0; \<open>IndexError\<close>, \<open>KeyError\<close> and \<open>TypeError\<close> are the
  errors of list indexing, dictionary lookup and iteration over \<^verbatim>\<open>None\<close>.
\<close>

datatype error = AssertionError | ValueError | IndexError | KeyError | TypeError

text \<open>
  A numpy \<^verbatim>\<open>float64\<close>: a finite value, one of the two infinities, or NaN.  Finite
  values are idealised as reals (rounding and overflow are not modelled, and neither is
  the sign of zero: a zero divisor counts as \<open>+0\<close>, which is what a sum of squares
  is).  Under numpy's default error state, division by zero and invalid operations
  warn and return an infinity or NaN; they do not raise.  A sum of reals does not
  depend on the order of its summands and a square of a real is zero only for zero,
  while a \<^verbatim>\<open>float64\<close> sum is rounded in the order of summation and the square of a
  tiny value underflows to zero; so the statements on zero-energy estimates are about
  the samples, and the statements on the order of accumulation are about the sorted
  scores, not about sums.
\<close>

datatype fval = Fin real | PInf | NInf | NaN

fun fl_neg :: "fval \<Rightarrow> fval" where
  "fl_neg (Fin a) = Fin (- a)"
| "fl_neg PInf = NInf"
| "fl_neg NInf = PInf"
| "fl_neg NaN = NaN"

fun fl_add :: "fval \<Rightarrow> fval \<Rightarrow> fval" where
  "fl_add (Fin a) (Fin b) = Fin (a + b)"
| "fl_add (Fin a) PInf = PInf"
| "fl_add (Fin a) NInf = NInf"
| "fl_add PInf (Fin b) = PInf"
| "fl_add PInf PInf = PInf"
| "fl_add NInf (Fin b) = NInf"
| "fl_add NInf NInf = NInf"
| "fl_add PInf NInf = NaN"
| "fl_add NInf PInf = NaN"
| "fl_add NaN y = NaN"
| "fl_add x NaN = NaN"

definition fl_sub :: "fval \<Rightarrow> fval \<Rightarrow> fval" where
  "fl_sub x y = fl_add x (fl_neg y)"

text \<open>An infinity with the sign of a nonzero real; \<open>inf * 0\<close> is NaN.\<close>

definition fl_inf_signed :: "real \<Rightarrow> fval" where
  "fl_inf_signed a = (if a = 0 then NaN else if 0 < a then PInf else NInf)"

fun fl_mul :: "fval \<Rightarrow> fval \<Rightarrow> fval" where
  "fl_mul (Fin a) (Fin b) = Fin (a * b)"
| "fl_mul (Fin a) PInf = fl_inf_signed a"
| "fl_mul (Fin a) NInf = fl_inf_signed (- a)"
| "fl_mul PInf (Fin b) = fl_inf_signed b"
| "fl_mul NInf (Fin b) = fl_inf_signed (- b)"
| "fl_mul PInf PInf = PInf"
| "fl_mul NInf NInf = PInf"
| "fl_mul PInf NInf = NInf"
| "fl_mul NInf PInf = NInf"
| "fl_mul NaN y = NaN"
| "fl_mul x NaN = NaN"

fun fl_div :: "fval \<Rightarrow> fval \<Rightarrow> fval" where
  "fl_div (Fin a) (Fin b) = (if b = 0 then fl_inf_signed a else Fin (a / b))"
| "fl_div (Fin a) PInf = Fin 0"
| "fl_div (Fin a) NInf = Fin 0"
| "fl_div PInf (Fin b) = (if 0 \<le> b then PInf else NInf)"
| "fl_div NInf (Fin b) = (if 0 \<le> b then NInf else PInf)"
| "fl_div PInf PInf = NaN"
| "fl_div PInf NInf = NaN"
| "fl_div NInf PInf = NaN"
| "fl_div NInf NInf = NaN"
| "fl_div NaN y = NaN"
| "fl_div x NaN = NaN"

fun fl_log10 :: "fval \<Rightarrow> fval" where
  "fl_log10 (Fin a) = (if a = 0 then NInf else if 0 < a then Fin (log 10 a) else NaN)"
| "fl_log10 PInf = PInf"
| "fl_log10 NInf = NaN"
| "fl_log10 NaN = NaN"

fun fl_sqrt :: "fval \<Rightarrow> fval" where
  "fl_sqrt (Fin a) = (if 0 \<le> a then Fin (sqrt a) else NaN)"
| "fl_sqrt PInf = PInf"
| "fl_sqrt NInf = NaN"
| "fl_sqrt NaN = NaN"

fun fl_abs :: "fval \<Rightarrow> fval" where
  "fl_abs (Fin a) = Fin \<bar>a\<bar>"
| "fl_abs PInf = PInf"
| "fl_abs NInf = PInf"
| "fl_abs NaN = NaN"

fun isnan :: "fval \<Rightarrow> bool" where
  "isnan NaN = True"
| "isnan _ = False"

section \<open>One-dimensional numpy arrays\<close>

text \<open>
  A one-dimensional \<^verbatim>\<open>float64\<close> array is a list of values.  \<^verbatim>\<open>np.sum\<close> adds the
  elements up from 0, \<^verbatim>\<open>np.square\<close> multiplies each element with itself,
  \<^verbatim>\<open>np.inner\<close> of two vectors raises \<open>ValueError\<close> unless they have the same
  length, and a binary operator broadcasts a one-element array against the other
  operand and raises \<open>ValueError\<close> on any other difference in length.
\<close>

definition np_sum :: "fval list \<Rightarrow> fval" where
  "np_sum xs = fold fl_add xs (Fin 0)"

definition np_square :: "fval list \<Rightarrow> fval list" where
  "np_square xs = map (\<lambda>x. fl_mul x x) xs"

definition np_inner :: "fval list \<Rightarrow> fval list \<Rightarrow> error + fval" where
  "np_inner a b =
     (if length a \<noteq> length b then Inl ValueError
      else Inr (np_sum (map2 fl_mul a b)))"

definition np_scale :: "fval \<Rightarrow> fval list \<Rightarrow> fval list" where
  "np_scale c xs = map (fl_mul c) xs"

definition np_sub :: "fval list \<Rightarrow> fval list \<Rightarrow> error + fval list" where
  "np_sub a b =
     (if length a = length b then Inr (map2 fl_sub a b)
      else if length b = 1 then Inr (map (\<lambda>x. fl_sub x (hd b)) a)
      else if length a = 1 then Inr (map (\<lambda>y. fl_sub (hd a) y) b)
      else Inl ValueError)"

section \<open>Evaluate.py: \<^verbatim>\<open>alpha_snr\<close>\<close>

text \<open>
  \<^verbatim>\<open>estimate_power\<close>, \<^verbatim>\<open>target_power\<close> and \<^verbatim>\<open>inner_prod\<close> of the source, then
  \<^verbatim>\<open>alpha\<close> and \<^verbatim>\<open>error_power\<close>.  The only statement that can raise is
  \<^verbatim>\<open>np.inner\<close>; once it has passed, both arrays have the same length and the
  subtraction cannot fail.
\<close>

definition snr_alpha :: "fval list \<Rightarrow> fval list \<Rightarrow> error + fval" where
  "snr_alpha target estimate =
     (let estimate_power = np_sum (np_square estimate) in
      case np_inner estimate target of
        Inl e \<Rightarrow> Inl e
      | Inr inner_prod \<Rightarrow> Inr (fl_div inner_prod estimate_power))"

definition snr_error_power :: "fval list \<Rightarrow> fval list \<Rightarrow> error + fval" where
  "snr_error_power target estimate =
     (case snr_alpha target estimate of
        Inl e \<Rightarrow> Inl e
      | Inr alpha \<Rightarrow>
          (case np_sub target (np_scale alpha estimate) of
             Inl e \<Rightarrow> Inl e
           | Inr d \<Rightarrow> Inr (np_sum (np_square d))))"

definition alpha_snr :: "fval list \<Rightarrow> fval list \<Rightarrow> error + fval" where
  "alpha_snr target estimate =
     (let target_power = np_sum (np_square target) in
      case snr_error_power target estimate of
        Inl e \<Rightarrow> Inl e
      | Inr error_power \<Rightarrow>
          Inr (fl_mul (Fin 10) (fl_log10 (fl_div target_power error_power))))"

text \<open>
  The specification of the optimal-scale SNR, in its own words and over real numbers:
  the three sums, the least-squares scale \<open>alpha\<close>, the error power, and
  \<open>10 * log10 (target_power / error_power)\<close>, where a zero error power gives
  \<open>+\<infinity>\<close>.
\<close>

definition spec_estimate_power :: "real list \<Rightarrow> real" where
  "spec_estimate_power estimate = (\<Sum>i<length estimate. (estimate ! i)\<^sup>2)"

definition spec_target_power :: "real list \<Rightarrow> real" where
  "spec_target_power target = (\<Sum>i<length target. (target ! i)\<^sup>2)"

definition spec_inner :: "real list \<Rightarrow> real list \<Rightarrow> real" where
  "spec_inner target estimate = (\<Sum>i<length target. target ! i * estimate ! i)"

definition spec_alpha :: "real list \<Rightarrow> real list \<Rightarrow> real" where
  "spec_alpha target estimate = spec_inner target estimate / spec_estimate_power estimate"

definition spec_error_power :: "real list \<Rightarrow> real list \<Rightarrow> real" where
  "spec_error_power target estimate =
     (\<Sum>i<length target. (target ! i - spec_alpha target estimate * estimate ! i)\<^sup>2)"

definition spec_alpha_snr :: "real list \<Rightarrow> real list \<Rightarrow> fval" where
  "spec_alpha_snr target estimate =
     fl_mul (Fin 10)
       (fl_log10 (fl_div (Fin (spec_target_power target)) (Fin (spec_error_power target estimate))))"

section \<open>Evaluate.py: \<^verbatim>\<open>compute_mean_metrics\<close>\<close>

text \<open>
  A score file as \<^verbatim>\<open>json.load\<close> returns it: the dictionary's \<^verbatim>\<open>"targets"\<close> is a
  list, each target's \<^verbatim>\<open>"frames"\<close> is a list, and each frame's \<^verbatim>\<open>"metrics"\<close> is a
  dictionary from metric names to numbers (\<^verbatim>\<open>np.float\<close> of a number is the number).
\<close>

record frame =
  metrics :: "string \<rightharpoonup> fval"

record target =
  frames :: "frame list"

record score_json =
  targets :: "target list"

text \<open>\<^verbatim>\<open>[np.float(f['metrics']["SDR"]) for f in frames]\<close>; a frame without the key raises.\<close>

fun sdr_values :: "frame list \<Rightarrow> error + fval list" where
  "sdr_values [] = Inr []"
| "sdr_values (f # fs) =
     (case metrics f ''SDR'' of
        None \<Rightarrow> Inl KeyError
      | Some v \<Rightarrow> (case sdr_values fs of Inl e \<Rightarrow> Inl e | Inr vs \<Rightarrow> Inr (v # vs)))"

text \<open>
  The inner loop \<^verbatim>\<open>for i in range(len(js["targets"]))\<close>, from index \<open>i\<close> on:
  \<^verbatim>\<open>sdr_inst_list[i]\<close> is looked up first (an \<open>IndexError\<close> when the accumulator is
  shorter), then the comprehension is evaluated and the list extended in place.
\<close>

fun extend_targets :: "nat \<Rightarrow> target list \<Rightarrow> fval list list \<Rightarrow> error + fval list list" where
  "extend_targets i [] sdr_inst_list = Inr sdr_inst_list"
| "extend_targets i (t # ts) sdr_inst_list =
     (if length sdr_inst_list \<le> i then Inl IndexError
      else case sdr_values (frames t) of
             Inl e \<Rightarrow> Inl e
           | Inr vs \<Rightarrow>
               extend_targets (Suc i) ts (sdr_inst_list[i := sdr_inst_list ! i @ vs]))"

text \<open>
  The loop over the files, in the order \<^verbatim>\<open>glob.glob\<close> lists them.  The accumulator is
  \<^verbatim>\<open>None\<close> until the first file, which fixes its length to that file's number of
  targets.
\<close>

fun accumulate :: "score_json list \<Rightarrow> fval list list option \<Rightarrow> error + fval list list option" where
  "accumulate [] sdr_inst_list = Inr sdr_inst_list"
| "accumulate (js # files) sdr_inst_list =
     (let l = (case sdr_inst_list of
                 None \<Rightarrow> replicate (length (targets js)) []
               | Some l \<Rightarrow> l)
      in case extend_targets 0 (targets js) l of
           Inl e \<Rightarrow> Inl e
         | Inr l' \<Rightarrow> accumulate files (Some l'))"

text \<open>
  numpy's NaN-ignoring statistics of a one-dimensional array.  \<^verbatim>\<open>np.nanmedian\<close>
  removes the NaNs, returns NaN when nothing is left and otherwise the median: the
  middle element of the sorted values, or the mean of the two middle ones.  Values are
  sorted with \<open>-\<infinity>\<close> first and \<open>+\<infinity>\<close> last.  \<^verbatim>\<open>np.nanmean\<close> replaces the NaNs by 0,
  sums, and divides by the number of values that are not NaN; \<^verbatim>\<open>np.nanstd\<close> is the
  square root of the variance that \<^verbatim>\<open>np.nanvar\<close> computes the same way, from the
  deviations from that mean with the NaN positions set to 0 (\<open>ddof = 0\<close>).
\<close>

fun fl_key :: "fval \<Rightarrow> int \<times> real" where
  "fl_key NInf = (- 1, 0)"
| "fl_key (Fin a) = (0, a)"
| "fl_key PInf = (1, 0)"
| "fl_key NaN = (2, 0)"

definition remove_nan :: "fval list \<Rightarrow> fval list" where
  "remove_nan xs = filter (\<lambda>x. \<not> isnan x) xs"

definition replace_nan :: "fval list \<Rightarrow> fval list" where
  "replace_nan xs = map (\<lambda>x. if isnan x then Fin 0 else x) xs"

definition np_median :: "fval list \<Rightarrow> fval" where
  "np_median xs =
     (let s = sort_key fl_key xs; n = length s
      in if n = 0 then NaN
         else if n mod 2 = 1 then s ! (n div 2)
         else fl_div (fl_add (s ! (n div 2 - 1)) (s ! (n div 2))) (Fin 2))"

definition np_nanmedian :: "fval list \<Rightarrow> fval" where
  "np_nanmedian xs = np_median (remove_nan xs)"

definition np_nanmean :: "fval list \<Rightarrow> fval" where
  "np_nanmean xs =
     (let cnt = length (remove_nan xs); tot = np_sum (replace_nan xs)
      in fl_div tot (Fin (real cnt)))"

definition np_nanvar :: "fval list \<Rightarrow> fval" where
  "np_nanvar xs =
     (let cnt = length (remove_nan xs);
          avg = fl_div (np_sum (replace_nan xs)) (Fin (real cnt));
          dev = map (\<lambda>x. if isnan x then Fin 0 else fl_sub x avg) xs;
          var = fl_div (np_sum (np_square dev)) (Fin (real cnt))
      in if cnt = 0 then NaN else var)"

definition np_nanstd :: "fval list \<Rightarrow> fval" where
  "np_nanstd xs = fl_sqrt (np_nanvar xs)"

text \<open>The tuple that the source computes for one source's array \<^verbatim>\<open>sdr\<close>.\<close>

definition sdr_averages :: "fval list \<Rightarrow> fval \<times> fval \<times> fval \<times> fval" where
  "sdr_averages sdr =
     (np_nanmedian sdr,
      np_nanmedian (map fl_abs (map (\<lambda>x. fl_sub x (np_nanmedian sdr)) sdr)),
      np_nanmean sdr,
      np_nanstd sdr)"

datatype metrics_result =
  Averages "(fval \<times> fval \<times> fval \<times> fval) list"
| Distributions "fval list list"

text \<open>
  \<^verbatim>\<open>compute_mean_metrics\<close> on the parsed score files of the folder.  With no file
  the accumulator is still \<^verbatim>\<open>None\<close> when the comprehension
  \<^verbatim>\<open>[np.array(sdr) for sdr in sdr_inst_list]\<close> iterates over it: a \<open>TypeError\<close>.
\<close>

definition compute_mean_metrics :: "score_json list \<Rightarrow> bool \<Rightarrow> error + metrics_result" where
  "compute_mean_metrics files compute_averages =
     (case accumulate files None of
        Inl e \<Rightarrow> Inl e
      | Inr None \<Rightarrow> Inl TypeError
      | Inr (Some sdr_inst_list) \<Rightarrow>
          if compute_averages then Inr (Averages (map sdr_averages sdr_inst_list))
          else Inr (Distributions sdr_inst_list))"

text \<open>
  The specification's summary of the values that remain once the NaNs are filtered out,
  over real numbers: median, median absolute deviation from the median, mean and
  standard deviation; all four are NaN when no value remains.
\<close>

definition spec_median :: "real list \<Rightarrow> real" where
  "spec_median ys =
     (let s = sort ys; n = length ys
      in if odd n then s ! (n div 2) else (s ! (n div 2 - 1) + s ! (n div 2)) / 2)"

definition spec_mean :: "real list \<Rightarrow> real" where
  "spec_mean ys = sum_list ys / real (length ys)"

definition spec_std :: "real list \<Rightarrow> real" where
  "spec_std ys = sqrt (sum_list (map (\<lambda>y. (y - spec_mean ys)\<^sup>2) ys) / real (length ys))"

definition spec_mad :: "real list \<Rightarrow> real" where
  "spec_mad ys = spec_median (map (\<lambda>y. \<bar>y - spec_median ys\<bar>) ys)"

definition aggregate_stats :: "real list \<Rightarrow> fval \<times> fval \<times> fval \<times> fval" where
  "aggregate_stats ys =
     (if ys = [] then (NaN, NaN, NaN, NaN)
      else (Fin (spec_median ys), Fin (spec_mad ys), Fin (spec_mean ys), Fin (spec_std ys)))"

fun finite_values :: "fval list \<Rightarrow> real list" where
  "finite_values [] = []"
| "finite_values (Fin a # xs) = a # finite_values xs"
| "finite_values (x # xs) = finite_values xs"

section \<open>Two-dimensional arrays\<close>

text \<open>
  A numpy array as it reaches \<^verbatim>\<open>predict_track\<close>: its shape and its elements in
  row-major order.
\<close>

datatype ndarray = NDArray (shape: "nat list") (flat: "fval list")

text \<open>
  A two-dimensional array \<open>[n_frames, n_channels]\<close> as the list of its rows (one row per
  time frame), with the number of columns kept beside them, so that an array without
  rows still has a channel count.
\<close>

datatype arr2 = Arr2 (ncols: nat) (rws: "fval list list")

definition as_arr2 :: "ndarray \<Rightarrow> arr2" where
  "as_arr2 a =
     (let r = shape a ! 0; c = shape a ! 1
      in Arr2 c (map (\<lambda>i. take c (drop (i * c) (flat a))) [0..<r]))"

text \<open>\<^verbatim>\<open>np.mean(a, axis=1, keepdims=True)\<close>, \<^verbatim>\<open>np.tile(a, [1, k])\<close> and \<^verbatim>\<open>np.zeros\<close>.\<close>

definition np_mean_axis1 :: "arr2 \<Rightarrow> arr2" where
  "np_mean_axis1 a = Arr2 1 (map (\<lambda>r. [fl_div (np_sum r) (Fin (real (ncols a)))]) (rws a))"

definition np_tile_cols :: "arr2 \<Rightarrow> nat \<Rightarrow> arr2" where
  "np_tile_cols a k = Arr2 (ncols a * k) (map (\<lambda>r. concat (replicate k r)) (rws a))"

definition np_zeros :: "nat \<Rightarrow> nat \<Rightarrow> arr2" where
  "np_zeros r c = Arr2 c (replicate r (replicate c (Fin 0)))"

text \<open>
  \<^verbatim>\<open>np.pad(a, [(p, p), (0, 0)], mode="constant", constant_values=0.0)\<close>: \<open>p\<close> rows of
  zeros before and after; a negative width raises \<open>ValueError\<close>.
\<close>

definition np_pad_rows :: "arr2 \<Rightarrow> int \<Rightarrow> error + arr2" where
  "np_pad_rows a p =
     (if p < 0 then Inl ValueError
      else Inr (Arr2 (ncols a)
             (replicate (nat p) (replicate (ncols a) (Fin 0)) @ rws a @
              replicate (nat p) (replicate (ncols a) (Fin 0)))))"

text \<open>
  A slice bound on an axis of length \<open>n\<close>: a negative bound counts from the end, and
  the result is clipped to \<open>0 .. n\<close>.
\<close>

definition slice_index :: "nat \<Rightarrow> int \<Rightarrow> nat" where
  "slice_index n i = (if i < 0 then nat (max 0 (i + int n)) else min (nat i) n)"

text \<open>\<^verbatim>\<open>a[start:stop, :]\<close>.\<close>

definition get_rows :: "arr2 \<Rightarrow> int \<Rightarrow> int \<Rightarrow> arr2" where
  "get_rows a start stop =
     (let n = length (rws a); s = slice_index n start; e = slice_index n stop
      in Arr2 (ncols a) (take (e - s) (drop s (rws a))))"

text \<open>
  \<^verbatim>\<open>dst[start:stop] = src\<close> for two-dimensional arrays: the value is broadcast to the
  shape of the slice (an axis of length 1 is repeated), and any other difference of the
  shapes raises \<open>ValueError\<close>.
\<close>

definition set_rows :: "arr2 \<Rightarrow> int \<Rightarrow> int \<Rightarrow> arr2 \<Rightarrow> error + arr2" where
  "set_rows dst start stop src =
     (let n = length (rws dst); s = slice_index n start; e = slice_index n stop; m = e - s;
          k = length (rws src)
      in if (k = m \<or> k = 1) \<and> (ncols src = ncols dst \<or> ncols src = 1) then
           let rs = (if k = m then rws src else replicate m (hd (rws src)));
               rs' = (if ncols src = ncols dst then rs
                      else map (\<lambda>r. replicate (ncols dst) (hd r)) rs)
           in Inr (Arr2 (ncols dst) (take s (rws dst) @ rs' @ drop (s + m) (rws dst)))
         else Inl ValueError)"

text \<open>\<^verbatim>\<open>range(0, stop, step)\<close> for natural numbers; a step of 0 raises \<open>ValueError\<close>.\<close>

definition py_range :: "nat \<Rightarrow> nat \<Rightarrow> error + nat list" where
  "py_range stop step =
     (if step = 0 then Inl ValueError
      else Inr (map (\<lambda>k. k * step) [0..<(stop + step - 1) div step]))"

section \<open>Evaluate.py: \<^verbatim>\<open>predict_track\<close> and \<^verbatim>\<open>predict\<close>\<close>

text \<open>
  The keys of \<^verbatim>\<open>model_config\<close> that the two functions read.  The shapes
  \<^verbatim>\<open>sep_input_shape\<close> and \<^verbatim>\<open>sep_output_shape\<close> are triples
  \<open>(batch_size, num_samples, num_channels)\<close>.
\<close>

record model_config =
  mono_downmix :: bool
  expected_sr :: nat
  num_sources :: nat
  task :: string

type_synonym sep_shape = "nat \<times> nat \<times> nat"

text \<open>
  Two collaborators are parameters of the model.  \<open>resample res_type a orig_sr target_sr\<close>
  stands for \<^verbatim>\<open>librosa.resample(a.T, orig_sr, target_sr, res_type).T\<close>, and
  \<open>infer mix_part\<close> for \<^verbatim>\<open>sess.run(separator_sources, feed_dict={mix_context: ...})\<close>
  on the window with its batch axis added: it returns the list \<^verbatim>\<open>source_parts\<close>, each
  entry without its batch axis (\<^verbatim>\<open>source_parts[i][0, :, :]\<close>), or the error that the
  session raises.
\<close>

type_synonym resampler = "string \<Rightarrow> arr2 \<Rightarrow> nat \<Rightarrow> nat \<Rightarrow> arr2"

type_synonym separator = "arr2 \<Rightarrow> error + arr2 list"

text \<open>The channel adaptation at the head of \<^verbatim>\<open>predict_track\<close>.\<close>

definition adapt_channels :: "model_config \<Rightarrow> arr2 \<Rightarrow> arr2" where
  "adapt_channels model_config mix_audio =
     (if mono_downmix model_config then np_mean_axis1 mix_audio
      else if ncols mix_audio = 1 then np_tile_cols mix_audio 2
      else mix_audio)"

text \<open>
  The position that the loop body works with: the loop variable, or
  \<^verbatim>\<open>source_time_frames - output_time_frames\<close> when the patch would reach over the
  end.  The difference is an integer and can be negative.
\<close>

definition window_start :: "nat \<Rightarrow> nat \<Rightarrow> nat \<Rightarrow> int" where
  "window_start source_time_frames output_time_frames source_pos =
     (if source_pos + output_time_frames > source_time_frames
      then int source_time_frames - int output_time_frames
      else int source_pos)"

text \<open>
  The inner loop \<^verbatim>\<open>for i in range(model_config["num_sources"])\<close> over the indices
  that are left:
  \<^verbatim>\<open>source_preds[i][source_pos:source_pos + output_time_frames] = source_parts[i][0, :, :]\<close>.
\<close>

fun save_predictions ::
  "nat list \<Rightarrow> int \<Rightarrow> nat \<Rightarrow> arr2 list \<Rightarrow> arr2 list \<Rightarrow> error + arr2 list" where
  "save_predictions [] source_pos output_time_frames source_parts source_preds = Inr source_preds"
| "save_predictions (i # is) source_pos output_time_frames source_parts source_preds =
     (if length source_parts \<le> i \<or> length source_preds \<le> i then Inl IndexError
      else case set_rows (source_preds ! i) source_pos (source_pos + int output_time_frames)
                  (source_parts ! i) of
             Inl e \<Rightarrow> Inl e
           | Inr p \<Rightarrow>
               save_predictions is source_pos output_time_frames source_parts
                 (source_preds[i := p]))"

text \<open>
  The loop \<^verbatim>\<open>for source_pos in range(0, source_time_frames, output_time_frames)\<close> over
  the values of the range that are left.
\<close>

fun tile_loop ::
  "separator \<Rightarrow> nat \<Rightarrow> arr2 \<Rightarrow> nat \<Rightarrow> nat \<Rightarrow> nat \<Rightarrow> nat list \<Rightarrow> arr2 list \<Rightarrow>
     error + arr2 list" where
  "tile_loop infer n_sources mix_audio_padded source_time_frames input_time_frames
      output_time_frames [] source_preds = Inr source_preds"
| "tile_loop infer n_sources mix_audio_padded source_time_frames input_time_frames
      output_time_frames (p # ps) source_preds =
     (let source_pos = window_start source_time_frames output_time_frames p;
          mix_part = get_rows mix_audio_padded source_pos (source_pos + int input_time_frames)
      in case infer mix_part of
           Inl e \<Rightarrow> Inl e
         | Inr source_parts \<Rightarrow>
             (case save_predictions [0..<n_sources] source_pos output_time_frames
                     source_parts source_preds of
                Inl e \<Rightarrow> Inl e
              | Inr source_preds' \<Rightarrow>
                  tile_loop infer n_sources mix_audio_padded source_time_frames
                    input_time_frames output_time_frames ps source_preds'))"

text \<open>
  The body of \<^verbatim>\<open>predict_track\<close> from the preallocation of the predictions on, for the
  resampled mixture.  The padding is \<^verbatim>\<open>(input_time_frames - output_time_frames) / 2\<close>
  in Python 2, an integer division that rounds down.
\<close>

definition predict_windows ::
  "separator \<Rightarrow> nat \<Rightarrow> arr2 \<Rightarrow> nat \<Rightarrow> nat \<Rightarrow> error + arr2 list" where
  "predict_windows infer n_sources mix_audio input_time_frames output_time_frames =
     (let source_time_frames = length (rws mix_audio);
          source_preds = replicate n_sources (np_zeros source_time_frames (ncols mix_audio));
          pad_time_frames = (int input_time_frames - int output_time_frames) div 2
      in case np_pad_rows mix_audio pad_time_frames of
           Inl e \<Rightarrow> Inl e
         | Inr mix_audio_padded \<Rightarrow>
             (case py_range source_time_frames output_time_frames of
                Inl e \<Rightarrow> Inl e
              | Inr ps \<Rightarrow>
                  tile_loop infer n_sources mix_audio_padded source_time_frames
                    input_time_frames output_time_frames ps source_preds))"

definition predict_track ::
  "resampler \<Rightarrow> separator \<Rightarrow> model_config \<Rightarrow> ndarray \<Rightarrow> nat \<Rightarrow> sep_shape \<Rightarrow> sep_shape \<Rightarrow>
     error + arr2 list" where
  "predict_track resample infer model_config mix_audio mix_sr sep_input_shape sep_output_shape =
     (if length (shape mix_audio) \<noteq> 2 then Inl AssertionError
      else
        let mix = adapt_channels model_config (as_arr2 mix_audio);
            mix = resample ''kaiser_fast'' mix mix_sr (expected_sr model_config)
        in predict_windows infer (num_sources model_config) mix
             (fst (snd sep_input_shape)) (fst (snd sep_output_shape)))"

text \<open>
  The values that \<^verbatim>\<open>source_pos\<close> takes in the loop body, in the order of the
  iterations.
\<close>

definition window_starts :: "nat \<Rightarrow> nat \<Rightarrow> error + int list" where
  "window_starts source_time_frames output_time_frames =
     (case py_range source_time_frames output_time_frames of
        Inl e \<Rightarrow> Inl e
      | Inr ps \<Rightarrow> Inr (map (window_start source_time_frames output_time_frames) ps))"

text \<open>
  The data path of \<^verbatim>\<open>predict\<close>: the channel count of the track's audio (an
  \<open>IndexError\<close> when the shape has no second entry), the windowed prediction, the
  resampling of every prediction back to the track's rate, the duplication of a mono
  estimate, and the dictionary of estimates (as the list of its items).  Loading the
  model and the evaluation by \<^verbatim>\<open>museval\<close> are outside the model.
\<close>

definition predict ::
  "resampler \<Rightarrow> separator \<Rightarrow> model_config \<Rightarrow> ndarray \<Rightarrow> nat \<Rightarrow> sep_shape \<Rightarrow> sep_shape \<Rightarrow>
     error + (string \<times> arr2) list" where
  "predict resample infer model_config track_audio track_rate sep_input_shape sep_output_shape =
     (if length (shape track_audio) < 2 then Inl IndexError
      else
        let mix_channels = shape track_audio ! 1 in
        case predict_track resample infer model_config track_audio track_rate
               sep_input_shape sep_output_shape of
          Inl e \<Rightarrow> Inl e
        | Inr separator_preds \<Rightarrow>
            let pred_audio =
                  map (\<lambda>pred. resample ''kaiser_best'' pred (expected_sr model_config) track_rate)
                    separator_preds;
                pred_audio =
                  (if mono_downmix model_config \<and> mix_channels > 1
                   then map (\<lambda>pred. np_tile_cols pred mix_channels) pred_audio
                   else pred_audio)
            in if task model_config = ''voice'' then
                 (if length pred_audio < 2 then Inl IndexError
                  else Inr [(''vocals'', pred_audio ! 1), (''accompaniment'', pred_audio ! 0)])
               else
                 (if length pred_audio < 4 then Inl IndexError
                  else Inr [(''bass'', pred_audio ! 0), (''drums'', pred_audio ! 1),
                            (''other'', pred_audio ! 2), (''vocals'', pred_audio ! 3)]))"

text \<open>
  What a slice assignment of a block of rows does to the rows of the destination, when the
  block fits: the rows from \<open>s\<close> on are replaced by the block.
\<close>

definition overwrite :: "'a list \<Rightarrow> nat \<Rightarrow> 'a list \<Rightarrow> 'a list" where
  "overwrite xs s blk = take s xs @ blk @ drop (s + length blk) xs"

section \<open>Datasets.py: \<^verbatim>\<open>write_wav_skip_existing\<close>\<close>

text \<open>
  The part of the world that the function touches: the files that exist, by path, with
  their contents, and the lines printed so far.  \<open>sf_write path y sr subtype\<close> stands for
  \<^verbatim>\<open>soundfile.write(path, y, sr, subtype)\<close>, as a function on the files;
  \<^verbatim>\<open>os.path.exists(path)\<close> is membership of the path in their domain.
\<close>

record 'c world =
  disk :: "string \<rightharpoonup> 'c"
  stdout :: "string list"

definition write_wav_skip_existing ::
  "(string \<Rightarrow> 'a \<Rightarrow> nat \<Rightarrow> string \<Rightarrow> (string \<rightharpoonup> 'c) \<Rightarrow> (string \<rightharpoonup> 'c)) \<Rightarrow>
     string \<Rightarrow> 'a \<Rightarrow> nat \<Rightarrow> bool \<Rightarrow> 'c world \<Rightarrow> 'c world" where
  "write_wav_skip_existing sf_write path y sr norm_flag w =
     (if path \<notin> dom (disk w) then w\<lparr>disk := sf_write path y sr ''PCM_16'' (disk w)\<rparr>
      else w\<lparr>stdout := stdout w @
             [''WARNING: Tried writing audio to '' @ path @
              '', but audio file exists already. Skipping file!'']\<rparr>)"

section \<open>Proofs\<close>

subsection \<open>Arithmetic of the floating-point values\<close>

lemma fl_add_NaN_right [simp]: "fl_add x NaN = NaN"
  by (cases x) simp_all

lemma fl_mul_NaN_right [simp]: "fl_mul x NaN = NaN"
  by (cases x) simp_all

lemma fl_div_NaN_right [simp]: "fl_div x NaN = NaN"
  by (cases x) simp_all

subsection \<open>\<^verbatim>\<open>alpha_snr\<close> on finite inputs\<close>

lemma fold_fl_add_Fin: "fold fl_add (map Fin xs) (Fin a) = Fin (a + sum_list xs)"
  by (induction xs arbitrary: a) (simp_all add: algebra_simps)

lemma np_sum_Fin: "np_sum (map Fin xs) = Fin (sum_list xs)"
  by (simp add: np_sum_def fold_fl_add_Fin)

lemma np_square_Fin: "np_square (map Fin xs) = map Fin (map (\<lambda>x. x * x) xs)"
  by (simp add: np_square_def)

lemma map2_fl_mul_Fin: "map2 fl_mul (map Fin a) (map Fin b) = map Fin (map2 (*) a b)"
  by (rule nth_equalityI) simp_all

lemma map2_fl_sub_Fin: "map2 fl_sub (map Fin a) (map Fin b) = map Fin (map2 (-) a b)"
  by (rule nth_equalityI) (simp_all add: fl_sub_def)

lemma np_scale_Fin: "np_scale (Fin c) (map Fin xs) = map Fin (map ((*) c) xs)"
  by (simp add: np_scale_def)

lemma sum_list_squares:
  "sum_list (map (\<lambda>x. x * x) xs) = (\<Sum>i<length xs. ((xs::real list) ! i)\<^sup>2)"
  by (simp add: sum_list_sum_nth atLeast0LessThan power2_eq_square)

lemma np_power_Fin: "np_sum (np_square (map Fin xs)) = Fin (\<Sum>i<length xs. (xs ! i)\<^sup>2)"
  unfolding np_square_Fin np_sum_Fin sum_list_squares ..

lemma snr_alpha_Fin:
  assumes "length target = length estimate"
  shows "snr_alpha (map Fin target) (map Fin estimate) =
     Inr (fl_div (Fin (spec_inner target estimate)) (Fin (spec_estimate_power estimate)))"
proof -
  have "sum_list (map2 (*) estimate target) = spec_inner target estimate"
    using assms by (simp add: sum_list_sum_nth atLeast0LessThan spec_inner_def mult.commute)
  then have "np_inner (map Fin estimate) (map Fin target) = Inr (Fin (spec_inner target estimate))"
    using assms unfolding np_inner_def map2_fl_mul_Fin np_sum_Fin by simp
  then show ?thesis
    unfolding snr_alpha_def np_power_Fin spec_estimate_power_def by simp
qed

lemma snr_error_power_Fin:
  assumes "length target = length estimate" and "spec_estimate_power estimate \<noteq> 0"
  shows "snr_error_power (map Fin target) (map Fin estimate) =
     Inr (Fin (spec_error_power target estimate))"
proof -
  let ?al = "spec_alpha target estimate"
  let ?d = "map2 (-) target (map ((*) ?al) estimate)"
  have al: "snr_alpha (map Fin target) (map Fin estimate) = Inr (Fin ?al)"
    using assms by (simp add: snr_alpha_Fin spec_alpha_def)
  have sub: "np_sub (map Fin target) (np_scale (Fin ?al) (map Fin estimate)) = Inr (map Fin ?d)"
    using assms(1) unfolding np_scale_Fin np_sub_def map2_fl_sub_Fin by simp
  have "(\<Sum>i<length ?d. (?d ! i)\<^sup>2) = spec_error_power target estimate"
    using assms(1) by (simp add: spec_error_power_def)
  then have pw: "np_sum (np_square (map Fin ?d)) = Fin (spec_error_power target estimate)"
    unfolding np_power_Fin by (rule arg_cong)
  have "snr_error_power (map Fin target) (map Fin estimate) = Inr (np_sum (np_square (map Fin ?d)))"
    by (simp only: snr_error_power_def al sub sum.case)
  then show ?thesis
    unfolding pw .
qed

text \<open>
  Claim C2.  For target and estimate sequences of finite values that have the same length,
  with a nonzero estimate power, \<^verbatim>\<open>alpha_snr\<close> returns the specified
  \<open>10 * log10 (target_power / error_power)\<close>, with \<open>alpha\<close> the quotient of the
  inner product by the estimate power and \<open>error_power\<close> the sum of the squares of
  \<open>target_i - alpha * estimate_i\<close>; where neither power is zero this is the real
  number \<open>10 * log 10 (target_power / error_power)\<close>.  On \<open>[1,1,1,1]\<close> against itself
  and on \<open>[2,2]\<close> against \<open>[1,1]\<close> the result is \<open>+\<infinity>\<close>, and on \<open>[1,0]\<close>
  against \<open>[0,1]\<close> it is the finite value \<open>10 * log10 (1 / 1) = 0\<close>.
\<close>

theorem alpha_snr_formula:
  "(length target = length estimate \<and> spec_estimate_power estimate \<noteq> 0 \<longrightarrow>
      alpha_snr (map Fin target) (map Fin estimate) = Inr (spec_alpha_snr target estimate) \<and>
      (spec_target_power target \<noteq> 0 \<and> spec_error_power target estimate \<noteq> 0 \<longrightarrow>
         alpha_snr (map Fin target) (map Fin estimate) =
           Inr (Fin (10 * log 10 (spec_target_power target / spec_error_power target estimate))))) \<and>
   alpha_snr (map Fin [1, 1, 1, 1]) (map Fin [1, 1, 1, 1]) = Inr PInf \<and>
   alpha_snr (map Fin [2, 2]) (map Fin [1, 1]) = Inr PInf \<and>
   alpha_snr (map Fin [1, 0]) (map Fin [0, 1]) = Inr (Fin 0)"
proof -
  have gen: "alpha_snr (map Fin t) (map Fin e) = Inr (spec_alpha_snr t e)"
    if "length t = length e" "spec_estimate_power e \<noteq> 0" for t e
    using that
    unfolding alpha_snr_def np_power_Fin by (simp add: snr_error_power_Fin spec_alpha_snr_def spec_target_power_def)
  have tp: "0 \<le> spec_target_power t" for t
    by (simp add: spec_target_power_def sum_nonneg)
  have ep: "0 \<le> spec_error_power t e" for t e
    by (simp add: spec_error_power_def sum_nonneg)
  have fin: "spec_alpha_snr t e = Fin (10 * log 10 (spec_target_power t / spec_error_power t e))"
    if "spec_target_power t \<noteq> 0" "spec_error_power t e \<noteq> 0" for t e
    using that tp[of t] ep[of t e] by (simp add: spec_alpha_snr_def)
  have c1: "alpha_snr (map Fin [1, 1, 1, 1]) (map Fin [1, 1, 1, 1]) = Inr PInf"
    by (simp add: alpha_snr_def snr_error_power_def snr_alpha_def np_inner_def np_sum_def
      np_square_def np_sub_def np_scale_def fl_sub_def fl_inf_signed_def)
  have c2: "alpha_snr (map Fin [2, 2]) (map Fin [1, 1]) = Inr PInf"
    by (simp add: alpha_snr_def snr_error_power_def snr_alpha_def np_inner_def np_sum_def
      np_square_def np_sub_def np_scale_def fl_sub_def fl_inf_signed_def)
  have c3: "alpha_snr (map Fin [1, 0]) (map Fin [0, 1]) = Inr (Fin 0)"
    by (simp add: alpha_snr_def snr_error_power_def snr_alpha_def np_inner_def np_sum_def
      np_square_def np_sub_def np_scale_def fl_sub_def fl_inf_signed_def)
  show ?thesis using gen fin c1 c2 c3 by simp
qed

theorem alpha_snr_formula_witness:
  "length [3, 4 :: real] = length [1, 0 :: real] \<and> spec_estimate_power [1, 0] \<noteq> 0 \<and>
   spec_target_power [3, 4] \<noteq> 0 \<and> spec_error_power [3, 4] [1, 0] \<noteq> 0 \<and>
   alpha_snr (map Fin [3, 4]) (map Fin [1, 0]) = Inr (Fin (10 * log 10 (25 / 16)))"
proof -
  have e: "spec_estimate_power [1, 0] = 1"
    by (simp add: spec_estimate_power_def lessThan_Suc numeral_2_eq_2)
  have t: "spec_target_power [3, 4] = 25"
    by (simp add: spec_target_power_def lessThan_Suc numeral_2_eq_2)
  have a: "spec_alpha [3, 4] [1, 0] = 3"
    by (simp add: spec_alpha_def spec_inner_def e lessThan_Suc numeral_2_eq_2)
  have p: "spec_error_power [3, 4] [1, 0] = 16"
    by (simp add: spec_error_power_def a lessThan_Suc numeral_2_eq_2)
  show ?thesis
    using alpha_snr_formula [of "[3, 4]" "[1, 0]"] by (simp add: e t p spec_alpha_snr_def)
qed

subsection \<open>\<^verbatim>\<open>alpha_snr\<close> on degenerate inputs\<close>

lemma fold_squares_Fin:
  "fold fl_add (map (\<lambda>x. fl_mul x x) xs) acc = Fin b \<Longrightarrow>
     \<exists>rs a. xs = map Fin rs \<and> acc = Fin a \<and> b = a + sum_list (map (\<lambda>x. x * x) rs)"
proof (induction xs arbitrary: acc)
  case Nil
  then show ?case by simp
next
  case (Cons x xs)
  from Cons.prems have "fold fl_add (map (\<lambda>x. fl_mul x x) xs) (fl_add (fl_mul x x) acc) = Fin b"
    by simp
  from Cons.IH [OF this] obtain rs a where
    xs: "xs = map Fin rs" and acc: "fl_add (fl_mul x x) acc = Fin a"
    and b: "b = a + sum_list (map (\<lambda>x. x * x) rs)"
    by blast
  from acc obtain r c where x: "x = Fin r" and c: "acc = Fin c" and a: "a = r * r + c"
    by (cases x; cases acc) (auto simp: fl_inf_signed_def split: if_splits)
  have "x # xs = map Fin (r # rs)" using x xs by simp
  moreover have "b = c + sum_list (map (\<lambda>x. x * x) (r # rs))" using a b by simp
  ultimately have "x # xs = map Fin (r # rs) \<and> acc = Fin c \<and>
      b = c + sum_list (map (\<lambda>x. x * x) (r # rs))"
    using c by simp
  then show ?case by (intro exI)
qed

lemma power_Fin_cases:
  assumes "np_sum (np_square xs) = Fin b"
  shows "\<exists>rs. xs = map Fin rs \<and> b = sum_list (map (\<lambda>x. x * x) rs)"
  using fold_squares_Fin [of xs "Fin 0" b] assms by (auto simp: np_sum_def np_square_def)

lemma zero_estimate_power:
  "\<forall>e\<in>set estimate. e = Fin 0 \<Longrightarrow> np_sum (np_square estimate) = Fin 0"
  unfolding np_sum_def np_square_def by (induction estimate) simp_all

lemma fold_zero_or_nan:
  "\<forall>y\<in>set ys. y = Fin 0 \<or> y = NaN \<Longrightarrow> acc = Fin 0 \<or> acc = NaN \<Longrightarrow>
     fold fl_add ys acc = Fin 0 \<or> fold fl_add ys acc = NaN"
proof (induction ys arbitrary: acc)
  case Nil
  then show ?case by simp
next
  case (Cons y ys)
  have "fl_add y acc = Fin 0 \<or> fl_add y acc = NaN"
    using Cons.prems by auto
  moreover have "\<forall>y\<in>set ys. y = Fin 0 \<or> y = NaN"
    using Cons.prems by simp
  ultimately show ?case
    using Cons.IH [of "fl_add y acc"] by simp
qed

lemma fold_nan: "fold fl_add (replicate n NaN) acc = (if n = 0 then acc else NaN)"
  by (induction n arbitrary: acc) auto

lemma fl_mul_zero: "fl_mul (Fin 0) y = Fin 0 \<or> fl_mul (Fin 0) y = NaN"
  by (cases y) (auto simp: fl_inf_signed_def)

lemma zero_estimate_alpha:
  assumes len: "length target = length estimate"
    and z: "\<forall>e\<in>set estimate. e = Fin 0"
  shows "snr_alpha target estimate = Inr NaN"
proof -
  have pw: "np_sum (np_square estimate) = Fin 0" using z by (rule zero_estimate_power)
  have "\<forall>y\<in>set (map2 fl_mul estimate target). y = Fin 0 \<or> y = NaN"
  proof
    fix y assume "y \<in> set (map2 fl_mul estimate target)"
    then obtain e t where "(e, t) \<in> set (zip estimate target)" and y: "y = fl_mul e t"
      by auto
    then have "e = Fin 0" using z by (auto dest: set_zip_leftD)
    then show "y = Fin 0 \<or> y = NaN" using y fl_mul_zero [of t] by simp
  qed
  then have "np_sum (map2 fl_mul estimate target) = Fin 0 \<or> np_sum (map2 fl_mul estimate target) = NaN"
    unfolding np_sum_def by (rule fold_zero_or_nan) simp
  then show ?thesis
    using len pw by (auto simp: snr_alpha_def np_inner_def fl_inf_signed_def)
qed

lemma zero_estimate_result:
  assumes len: "length target = length estimate"
    and z: "\<forall>e\<in>set estimate. e = Fin 0"
  shows "alpha_snr target estimate = Inr NaN"
proof -
  let ?n = "length target"
  have d: "map2 fl_sub target (np_scale NaN estimate) = replicate ?n NaN"
    using len by (intro nth_equalityI) (simp_all add: np_scale_def fl_sub_def)
  have sub: "np_sub target (np_scale NaN estimate) = Inr (replicate ?n NaN)"
    using len d by (simp add: np_sub_def np_scale_def)
  have sq: "np_sum (np_square (replicate ?n NaN)) = (if ?n = 0 then Fin 0 else NaN)"
    unfolding np_sum_def np_square_def map_replicate fl_mul.simps fold_nan ..
  have ep: "snr_error_power target estimate = Inr (if ?n = 0 then Fin 0 else NaN)"
    by (simp only: snr_error_power_def zero_estimate_alpha [OF len z] sub sq sum.case)
  show ?thesis
  proof (cases "?n = 0")
    case True
    then show ?thesis using ep by (simp add: alpha_snr_def np_sum_def np_square_def fl_inf_signed_def)
  next
    case False
    then show ?thesis using ep by (simp add: alpha_snr_def)
  qed
qed

lemma map2_sub_Fin:
  "length a = length b \<Longrightarrow> map2 fl_sub a b = map Fin rs \<Longrightarrow> \<exists>ts. a = map Fin ts"
proof (induction a b arbitrary: rs rule: list_induct2)
  case Nil
  then show ?case by simp
next
  case (Cons x xs y ys)
  from Cons.prems obtain r rs' where rs: "rs = r # rs'" and h: "fl_sub x y = Fin r"
    and t: "map2 fl_sub xs ys = map Fin rs'"
    by (cases rs) auto
  from Cons.IH [OF t] obtain ts where ts: "xs = map Fin ts" by blast
  from h obtain u where "x = Fin u"
    by (cases x; cases y) (auto simp: fl_sub_def)
  then have "x # xs = map Fin (u # ts)" using ts by simp
  then show ?case by (rule exI)
qed

lemma perfect_result:
  assumes ep: "snr_error_power target estimate = Inr (Fin 0)"
    and tp: "np_sum (np_square target) \<noteq> Fin 0"
  shows "alpha_snr target estimate = Inr PInf"
proof -
  from ep obtain alpha where al: "snr_alpha target estimate = Inr alpha"
    by (auto simp: snr_error_power_def split: sum.splits)
  then have len: "length estimate = length target"
    by (auto simp: snr_alpha_def np_inner_def Let_def split: if_splits)
  from ep al len have "np_sum (np_square (map2 fl_sub target (np_scale alpha estimate))) = Fin 0"
    by (auto simp: snr_error_power_def np_sub_def np_scale_def split: sum.splits)
  from power_Fin_cases [OF this] obtain rs where
    "map2 fl_sub target (np_scale alpha estimate) = map Fin rs" by blast
  with len obtain ts where ts: "target = map Fin ts"
    using map2_sub_Fin [of target "np_scale alpha estimate" rs] by (auto simp: np_scale_def)
  have nonneg: "0 \<le> (\<Sum>i<length ts. (ts ! i)\<^sup>2)" by (simp add: sum_nonneg)
  have "alpha_snr target estimate =
      Inr (fl_mul (Fin 10) (fl_log10 (fl_div (np_sum (np_square target)) (Fin 0))))"
    by (simp add: alpha_snr_def ep)
  then show ?thesis
    using tp nonneg unfolding ts np_power_Fin
    by (simp add: fl_inf_signed_def)
qed

text \<open>
  Claim C3, as the code has it.  An estimate whose samples are all exactly zero raises
  nothing: for arrays of the same length the estimate power is zero, \<^verbatim>\<open>alpha\<close> is
  \<open>0 / 0\<close>, which numpy evaluates to NaN, and \<^verbatim>\<open>alpha_snr\<close> returns NaN.  (An
  estimate power that is zero only because the squares of tiny samples underflow is
  not covered: rounding is outside the model.)  Whenever the error power is zero and the
  target power is not, \<^verbatim>\<open>alpha_snr\<close> returns \<open>+\<infinity>\<close> as an ordinary result.
\<close>

theorem alpha_snr_degenerate:
  "(length target = length estimate \<and> (\<forall>e\<in>set estimate. e = Fin 0) \<longrightarrow>
      np_sum (np_square estimate) = Fin 0 \<and> alpha_snr target estimate = Inr NaN) \<and>
   (snr_error_power target estimate = Inr (Fin 0) \<and> np_sum (np_square target) \<noteq> Fin 0 \<longrightarrow>
      alpha_snr target estimate = Inr PInf)"
  using zero_estimate_power zero_estimate_result perfect_result by blast

theorem alpha_snr_degenerate_witness:
  "length [Fin 1, Fin 2] = length [Fin 0, Fin 0] \<and>
   set [Fin 0, Fin 0] = {Fin 0} \<and>
   np_sum (np_square [Fin 0, Fin 0]) = Fin 0 \<and>
   alpha_snr [Fin 1, Fin 2] [Fin 0, Fin 0] = Inr NaN \<and>
   snr_error_power [Fin 2, Fin 2] [Fin 1, Fin 1] = Inr (Fin 0) \<and>
   np_sum (np_square [Fin 2, Fin 2]) \<noteq> Fin 0 \<and>
   alpha_snr [Fin 2, Fin 2] [Fin 1, Fin 1] = Inr PInf"
proof -
  have e: "snr_error_power [Fin 2, Fin 2] [Fin 1, Fin 1] = Inr (Fin 0)"
    by (simp add: snr_error_power_def snr_alpha_def np_inner_def np_sum_def np_square_def
        np_sub_def np_scale_def fl_sub_def)
  have t: "np_sum (np_square [Fin 2, Fin 2]) \<noteq> Fin 0"
    by (simp add: np_sum_def np_square_def)
  show ?thesis
    using alpha_snr_degenerate [of "[Fin 1, Fin 2]" "[Fin 0, Fin 0]"]
      alpha_snr_degenerate [of "[Fin 2, Fin 2]" "[Fin 1, Fin 1]"] e t
    by simp
qed

text \<open>
  The claim as the specification words it fails: on the target \<open>[1, 2]\<close> and the
  all-zero estimate \<open>[0, 0]\<close> the estimate power is zero and \<^verbatim>\<open>alpha_snr\<close>
  returns the value NaN; it signals no error.
\<close>

theorem alpha_snr_zero_estimate_returns:
  "np_sum (np_square [Fin 0, Fin 0]) = Fin 0 \<and>
   alpha_snr [Fin 1, Fin 2] [Fin 0, Fin 0] = Inr NaN"
  by (simp add: alpha_snr_def snr_error_power_def snr_alpha_def np_inner_def np_sum_def
      np_square_def np_sub_def np_scale_def fl_sub_def fl_inf_signed_def)

subsection \<open>The median depends on the multiset of scores only\<close>

lemma inj_fl_key: "inj fl_key"
proof (rule injI)
  fix x y assume "fl_key x = fl_key y"
  then show "x = y" by (cases x; cases y) simp_all
qed






subsection \<open>The accumulation loops\<close>







subsection \<open>NaN entries do not count\<close>

lemma fl_add_zero_left [simp]: "fl_add (Fin 0) x = x"
  by (cases x) simp_all

lemma fl_sub_NaN_left [simp]: "fl_sub NaN y = NaN"
  by (simp add: fl_sub_def)

lemma isnan_iff: "isnan x \<longleftrightarrow> x = NaN"
  by (cases x) simp_all

lemma remove_nan_idem: "remove_nan (remove_nan xs) = remove_nan xs"
  by (simp add: remove_nan_def)

lemma fold_replace_nan: "fold fl_add (replace_nan xs) acc = fold fl_add (remove_nan xs) acc"
  by (induction xs arbitrary: acc) (simp_all add: replace_nan_def remove_nan_def)

lemma replace_remove_nan: "replace_nan (remove_nan xs) = remove_nan xs"
  by (induction xs) (simp_all add: replace_nan_def remove_nan_def)

lemma np_sum_replace_nan: "np_sum (replace_nan xs) = np_sum (remove_nan xs)"
  by (simp add: np_sum_def fold_replace_nan)

lemma np_nanmedian_remove: "np_nanmedian (remove_nan xs) = np_nanmedian xs"
  by (simp add: np_nanmedian_def remove_nan_idem)

lemma np_nanmean_remove: "np_nanmean (remove_nan xs) = np_nanmean xs"
  by (simp add: np_nanmean_def remove_nan_idem np_sum_replace_nan)

lemma remove_nan_deviations:
  "remove_nan (map fl_abs (map (\<lambda>x. fl_sub x m) (remove_nan xs))) =
   remove_nan (map fl_abs (map (\<lambda>x. fl_sub x m) xs))"
  by (induction xs) (simp_all add: remove_nan_def isnan_iff)

lemma fold_squared_deviations:
  "fold fl_add (np_square (map (\<lambda>x. if isnan x then Fin 0 else f x) (remove_nan xs))) acc =
   fold fl_add (np_square (map (\<lambda>x. if isnan x then Fin 0 else f x) xs)) acc"
  by (induction xs arbitrary: acc) (simp_all add: remove_nan_def np_square_def)

lemma np_nanvar_remove: "np_nanvar (remove_nan xs) = np_nanvar xs"
proof -
  have s: "np_sum (replace_nan (remove_nan xs)) = np_sum (replace_nan xs)"
    by (simp add: replace_remove_nan np_sum_replace_nan)
  have d: "np_sum (np_square (map (\<lambda>x. if isnan x then Fin 0 else fl_sub x m) (remove_nan xs))) =
      np_sum (np_square (map (\<lambda>x. if isnan x then Fin 0 else fl_sub x m) xs))" for m
    by (simp add: np_sum_def fold_squared_deviations)
  show ?thesis
    unfolding np_nanvar_def Let_def remove_nan_idem s d ..
qed

lemma sdr_averages_remove_nan: "sdr_averages (remove_nan xs) = sdr_averages xs"
proof -
  have "np_nanmedian (map fl_abs (map (\<lambda>x. fl_sub x m) (remove_nan xs))) =
      np_nanmedian (map fl_abs (map (\<lambda>x. fl_sub x m) xs))" for m
    unfolding np_nanmedian_def remove_nan_deviations ..
  then show ?thesis
    by (simp add: sdr_averages_def np_nanmedian_remove np_nanmean_remove np_nanstd_def
        np_nanvar_remove)
qed

subsection \<open>The statistics of finite scores\<close>

lemma remove_nan_finite:
  "\<forall>v\<in>set xs. v = NaN \<or> (\<exists>r. v = Fin r) \<Longrightarrow> remove_nan xs = map Fin (finite_values xs)"
  by (induction xs) (auto simp: remove_nan_def)

lemma remove_nan_Fin: "remove_nan (map Fin ys) = map Fin ys"
  by (induction ys) (simp_all add: remove_nan_def)

lemma replace_nan_Fin: "replace_nan (map Fin ys) = map Fin ys"
  by (induction ys) (simp_all add: replace_nan_def)

lemma sorted_Fin_keys: "sorted (map fl_key (map Fin ys)) \<longleftrightarrow> sorted ys"
  by (induction ys) (auto simp: less_eq_prod_def)

lemma sort_key_Fin: "sort_key fl_key (map Fin ys) = map Fin (sort ys)"
proof (rule sort_key_inj_key_eq)
  show "mset (map Fin ys) = mset (map Fin (sort ys))" by simp
  show "inj_on fl_key (set (map Fin ys))" using inj_fl_key by (rule inj_on_subset) simp
  show "sorted (map fl_key (map Fin (sort ys)))" by (simp only: sorted_Fin_keys sorted_sort)
qed

lemma np_median_Fin:
  "np_median (map Fin ys) = (if ys = [] then NaN else Fin (spec_median ys))"
proof (cases "ys = []")
  case True
  then show ?thesis by (simp add: np_median_def)
next
  case False
  let ?n = "length ys"
  have n: "0 < ?n" using False by simp
  have h: "?n div 2 < ?n" using n by simp
  have h1: "?n div 2 - 1 < ?n" using h by linarith
  have ne: "sort ys \<noteq> []" using False by (metis length_sort length_0_conv)
  have "np_median (map Fin ys) =
      (if ?n mod 2 = 1 then Fin (sort ys ! (?n div 2))
       else Fin ((sort ys ! (?n div 2 - 1) + sort ys ! (?n div 2)) / 2))"
    using n h h1 ne by (simp add: np_median_def sort_key_Fin Let_def)
  then show ?thesis
    using False by (simp add: spec_median_def Let_def odd_iff_mod_2_eq_one)
qed

lemma np_nanmedian_Fin:
  "np_nanmedian (map Fin ys) = (if ys = [] then NaN else Fin (spec_median ys))"
  by (simp only: np_nanmedian_def remove_nan_Fin np_median_Fin)

lemma deviations_Fin:
  "map fl_abs (map (\<lambda>x. fl_sub x (Fin m)) (map Fin ys)) = map Fin (map (\<lambda>y. \<bar>y - m\<bar>) ys)"
  by (induction ys) (simp_all add: fl_sub_def)

lemma np_nanmean_Fin: "ys \<noteq> [] \<Longrightarrow> np_nanmean (map Fin ys) = Fin (spec_mean ys)"
  by (simp add: np_nanmean_def remove_nan_Fin replace_nan_Fin np_sum_Fin spec_mean_def)

lemma squared_deviations_Fin:
  "np_square (map (\<lambda>x. if isnan x then Fin 0 else fl_sub x (Fin m)) (map Fin ys)) =
   map Fin (map (\<lambda>y. (y - m)\<^sup>2) ys)"
  by (induction ys) (simp_all add: np_square_def fl_sub_def power2_eq_square)

lemma np_nanstd_Fin:
  assumes "ys \<noteq> []"
  shows "np_nanstd (map Fin ys) = Fin (spec_std ys)"
proof -
  let ?n = "real (length ys)"
  let ?s = "sum_list (map (\<lambda>y. (y - spec_mean ys)\<^sup>2) ys)"
  have n: "?n \<noteq> 0" using assms by simp
  have avg: "fl_div (np_sum (replace_nan (map Fin ys))) (Fin ?n) = Fin (spec_mean ys)"
    using n by (simp add: replace_nan_Fin np_sum_Fin spec_mean_def)
  have "np_nanvar (map Fin ys) = Fin (?s / ?n)"
    unfolding np_nanvar_def Let_def remove_nan_Fin length_map avg squared_deviations_Fin
      np_sum_Fin
    using assms n by simp
  moreover have "0 \<le> ?s / ?n"
    by (intro divide_nonneg_nonneg sum_list_nonneg) auto
  ultimately show ?thesis by (simp add: np_nanstd_def spec_std_def)
qed

lemma sdr_averages_Fin: "sdr_averages (map Fin ys) = aggregate_stats ys"
proof (cases "ys = []")
  case True
  then show ?thesis
    by (simp add: sdr_averages_def aggregate_stats_def np_nanmedian_def np_median_def
        remove_nan_def np_nanmean_def np_nanstd_def np_nanvar_def replace_nan_def np_sum_def
        fl_inf_signed_def)
next
  case False
  have "np_nanmedian (map fl_abs (map (\<lambda>x. fl_sub x (Fin (spec_median ys))) (map Fin ys))) =
      Fin (spec_mad ys)"
    unfolding deviations_Fin np_nanmedian_Fin using False by (simp add: spec_mad_def)
  then show ?thesis
    using False
    by (simp add: sdr_averages_def aggregate_stats_def np_nanmedian_Fin np_nanmean_Fin
        np_nanstd_Fin)
qed

lemma sdr_averages_finite:
  assumes "\<forall>v\<in>set xs. v = NaN \<or> (\<exists>r. v = Fin r)"
  shows "sdr_averages xs = aggregate_stats (finite_values xs)"
  using sdr_averages_remove_nan [of xs] remove_nan_finite [OF assms]
  by (simp add: sdr_averages_Fin)

lemma finite_values_all_nan: "\<forall>v\<in>set xs. v = NaN \<Longrightarrow> finite_values xs = []"
  by (induction xs) auto

lemma sdr_averages_all_nan:
  assumes "\<forall>v\<in>set xs. v = NaN"
  shows "sdr_averages xs = (NaN, NaN, NaN, NaN)"
proof -
  have "\<forall>v\<in>set xs. v = NaN \<or> (\<exists>r. v = Fin r)" using assms by simp
  then show ?thesis
    using finite_values_all_nan [OF assms]
    by (simp add: sdr_averages_finite aggregate_stats_def)
qed

text \<open>
  Claim C7.  Whenever the score lists per source have been accumulated, the summary
  with \<^verbatim>\<open>compute_averages=True\<close> returns without an error, one tuple per source; the
  tuple of a list is the tuple of the list without its NaN entries; where the other
  entries are finite it is the median, the median absolute deviation from the median,
  the mean and the standard deviation of those values; and where every entry is NaN all
  four statistics are NaN.
\<close>

theorem summary_ignores_nan:
  assumes "compute_mean_metrics files False = Inr (Distributions dists)"
  shows "\<exists>avgs. compute_mean_metrics files True = Inr (Averages avgs) \<and>
     length avgs = length dists \<and>
     (\<forall>i<length dists.
        avgs ! i = sdr_averages (remove_nan (dists ! i)) \<and>
        ((\<forall>v\<in>set (dists ! i). v = NaN \<or> (\<exists>r. v = Fin r)) \<longrightarrow>
           avgs ! i = aggregate_stats (finite_values (dists ! i))) \<and>
        ((\<forall>v\<in>set (dists ! i). v = NaN) \<longrightarrow> avgs ! i = (NaN, NaN, NaN, NaN)))"
proof -
  from assms have acc: "accumulate files None = Inr (Some dists)"
    by (auto simp: compute_mean_metrics_def split: sum.splits option.splits)
  then have "compute_mean_metrics files True = Inr (Averages (map sdr_averages dists))"
    by (simp add: compute_mean_metrics_def)
  moreover have "length (map sdr_averages dists) = length dists"
    by simp
  moreover have "\<forall>i<length dists.
        map sdr_averages dists ! i = sdr_averages (remove_nan (dists ! i)) \<and>
        ((\<forall>v\<in>set (dists ! i). v = NaN \<or> (\<exists>r. v = Fin r)) \<longrightarrow>
           map sdr_averages dists ! i = aggregate_stats (finite_values (dists ! i))) \<and>
        ((\<forall>v\<in>set (dists ! i). v = NaN) \<longrightarrow> map sdr_averages dists ! i = (NaN, NaN, NaN, NaN))"
  proof (intro allI impI conjI)
    fix i assume "i < length dists"
    then show "map sdr_averages dists ! i = sdr_averages (remove_nan (dists ! i))"
      by (simp add: sdr_averages_remove_nan)
  next
    fix i assume "i < length dists" "\<forall>v\<in>set (dists ! i). v = NaN \<or> (\<exists>r. v = Fin r)"
    then show "map sdr_averages dists ! i = aggregate_stats (finite_values (dists ! i))"
      by (simp add: sdr_averages_finite)
  next
    fix i assume "i < length dists" "\<forall>v\<in>set (dists ! i). v = NaN"
    then show "map sdr_averages dists ! i = (NaN, NaN, NaN, NaN)"
      by (simp add: sdr_averages_all_nan)
  qed
  ultimately show ?thesis by blast
qed



theorem summary_ignores_nan_witness:
  "compute_mean_metrics
     [\<lparr>targets = [\<lparr>frames = [\<lparr>metrics = [''SDR'' \<mapsto> Fin 1]\<rparr>, \<lparr>metrics = [''SDR'' \<mapsto> NaN]\<rparr>,
                             \<lparr>metrics = [''SDR'' \<mapsto> Fin 3]\<rparr>]\<rparr>,
                  \<lparr>frames = [\<lparr>metrics = [''SDR'' \<mapsto> NaN]\<rparr>]\<rparr>]\<rparr>] False =
     Inr (Distributions [[Fin 1, NaN, Fin 3], [NaN]]) \<and>
   compute_mean_metrics
     [\<lparr>targets = [\<lparr>frames = [\<lparr>metrics = [''SDR'' \<mapsto> Fin 1]\<rparr>, \<lparr>metrics = [''SDR'' \<mapsto> NaN]\<rparr>,
                             \<lparr>metrics = [''SDR'' \<mapsto> Fin 3]\<rparr>]\<rparr>,
                  \<lparr>frames = [\<lparr>metrics = [''SDR'' \<mapsto> NaN]\<rparr>]\<rparr>]\<rparr>] True =
     Inr (Averages [(Fin 2, Fin 1, Fin 2, Fin 1), (NaN, NaN, NaN, NaN)])"
proof -
  let ?F = "[\<lparr>targets = [\<lparr>frames = [\<lparr>metrics = [''SDR'' \<mapsto> Fin 1]\<rparr>, \<lparr>metrics = [''SDR'' \<mapsto> NaN]\<rparr>,
                             \<lparr>metrics = [''SDR'' \<mapsto> Fin 3]\<rparr>]\<rparr>,
                  \<lparr>frames = [\<lparr>metrics = [''SDR'' \<mapsto> NaN]\<rparr>]\<rparr>]\<rparr>]"
  let ?D = "[[Fin 1, NaN, Fin 3], [NaN]]"
  have h: "compute_mean_metrics ?F False = Inr (Distributions ?D)"
    by (simp add: compute_mean_metrics_def)
  from summary_ignores_nan [OF h] obtain avgs where
    a: "compute_mean_metrics ?F True = Inr (Averages avgs)" and l: "length avgs = length ?D"
    and p: "\<forall>i<length ?D.
       ((\<forall>v\<in>set (?D ! i). v = NaN \<or> (\<exists>r. v = Fin r)) \<longrightarrow>
           avgs ! i = aggregate_stats (finite_values (?D ! i))) \<and>
       ((\<forall>v\<in>set (?D ! i). v = NaN) \<longrightarrow> avgs ! i = (NaN, NaN, NaN, NaN))"
    by blast
  have m: "spec_median [1, 3] = 2"
    by (simp add: spec_median_def)
  have a0: "avgs ! 0 = (Fin 2, Fin 1, Fin 2, Fin 1)"
    using p [rule_format, of 0]
    by (simp add: aggregate_stats_def spec_mad_def m spec_mean_def spec_std_def)
      (simp add: spec_median_def)
  have a1: "avgs ! 1 = (NaN, NaN, NaN, NaN)"
    using p [rule_format, of 1] by (simp add: aggregate_stats_def)
  have "avgs = [avgs ! 0, avgs ! 1]"
    using l by (intro nth_equalityI) (auto simp: less_Suc_eq)
  then have "avgs = [(Fin 2, Fin 1, Fin 2, Fin 1), (NaN, NaN, NaN, NaN)]"
    using a0 a1 by simp
  then show ?thesis using h a by simp
qed

text \<open>
  Claim C10.  With no score file \<^verbatim>\<open>compute_mean_metrics\<close> raises (a \<open>TypeError\<close>,
  from iterating over the accumulator that is still \<^verbatim>\<open>None\<close>) instead of returning
  an empty result; so a result is returned only when there is at least one file.
\<close>

theorem no_score_files:
  "compute_mean_metrics [] compute_averages = Inl TypeError \<and>
   (compute_mean_metrics files compute_averages = Inr r \<longrightarrow> files \<noteq> [])"
  by (auto simp: compute_mean_metrics_def)

theorem no_score_files_witness:
  "compute_mean_metrics [\<lparr>targets = [\<lparr>frames = [\<lparr>metrics = [''SDR'' \<mapsto> Fin 1]\<rparr>]\<rparr>]\<rparr>] False =
     Inr (Distributions [[Fin 1]]) \<and>
   [\<lparr>targets = [\<lparr>frames = [\<lparr>metrics = [''SDR'' \<mapsto> Fin 1]\<rparr>]\<rparr>]\<rparr>] \<noteq> [] \<and>
   compute_mean_metrics [] False = Inl TypeError"
proof -
  have h: "compute_mean_metrics [\<lparr>targets = [\<lparr>frames = [\<lparr>metrics = [''SDR'' \<mapsto> Fin 1]\<rparr>]\<rparr>]\<rparr>] False =
     Inr (Distributions [[Fin 1]])"
    by (simp add: compute_mean_metrics_def)
  show ?thesis
    using no_score_files
      [of False "[\<lparr>targets = [\<lparr>frames = [\<lparr>metrics = [''SDR'' \<mapsto> Fin 1]\<rparr>]\<rparr>]\<rparr>]" "Distributions [[Fin 1]]"] h
    by simp
qed

subsection \<open>The window starts\<close>

lemma range_count_bounds:
  assumes "0 < step"
  shows "(stop::nat) \<le> ((stop + step - 1) div step) * step"
    and "((stop + step - 1) div step) * step < stop + step"
proof -
  let ?a = "stop + step - 1"
  have "?a div step * step + ?a mod step = ?a" by simp
  moreover have "?a mod step < step" using assms by simp
  ultimately show "stop \<le> (?a div step) * step" by linarith
  have "?a div step * step \<le> ?a" by simp
  then show "(?a div step) * step < stop + step" using assms by linarith
qed

lemma window_starts_closed:
  assumes Ow: "0 < Ow" and L: "Ow \<le> L"
  shows "window_starts L Ow =
     Inr (map (\<lambda>k. int (k * Ow)) [0..<(L + Ow - 1) div Ow - 1] @ [int L - int Ow])"
proof -
  let ?n = "(L + Ow - 1) div Ow"
  have up: "L \<le> ?n * Ow" and lo: "?n * Ow < L + Ow"
    using range_count_bounds [OF Ow, of L] by simp_all
  have n: "0 < ?n" using up Ow L by (cases "?n") simp_all
  then obtain m where nm: "?n = Suc m" by (cases "?n") simp_all
  have split: "[0..<?n] = [0..<?n - 1] @ [?n - 1]"
    unfolding nm by simp
  have eqn: "(?n - 1) * Ow + Ow = ?n * Ow"
    unfolding nm by simp
  have front: "window_start L Ow (k * Ow) = int (k * Ow)" if "k < ?n - 1" for k
  proof -
    have "Suc k \<le> ?n - 1" using that by simp
    then have "Suc k * Ow \<le> (?n - 1) * Ow" by (rule mult_le_mono1)
    then have "k * Ow + Ow \<le> L" using eqn lo by simp
    then show ?thesis by (simp add: window_start_def)
  qed
  have final: "window_start L Ow ((?n - 1) * Ow) = int L - int Ow"
  proof (cases "L < ?n * Ow")
    case True
    then show ?thesis using eqn by (simp add: window_start_def)
  next
    case False
    then have "?n * Ow = L" using up by simp
    then have "int ((?n - 1) * Ow) = int L - int Ow" using eqn by linarith
    moreover have "\<not> (?n - 1) * Ow + Ow > L" using eqn False by simp
    ultimately show ?thesis by (simp add: window_start_def)
  qed
  have "map (window_start L Ow) (map (\<lambda>k. k * Ow) [0..<?n]) =
      map (\<lambda>k. int (k * Ow)) [0..<?n - 1] @ [int L - int Ow]"
    unfolding split using front final by simp
  then show ?thesis
    using Ow by (simp add: window_starts_def py_range_def)
qed

lemma union_blocks:
  assumes "0 \<le> (w::int)"
  shows "(\<Union>k<m. {int k * w..<int k * w + w}) = {0..<int m * w}"
proof (induction m)
  case 0
  show ?case by simp
next
  case (Suc m)
  define a where "a = int m * w"
  have a: "0 \<le> a" using assms by (simp add: a_def)
  have s: "int (Suc m) * w = a + w" by (simp add: a_def algebra_simps)
  have "(\<Union>k<Suc m. {int k * w..<int k * w + w}) = {0..<a} \<union> {a..<a + w}"
    using Suc by (simp add: lessThan_Suc Un_commute a_def)
  also have "\<dots> = {0..<a + w}"
    using a assms by auto
  finally show ?case unfolding s .
qed

lemma window_starts_properties:
  assumes Ow: "0 < Ow" and L: "Ow \<le> L"
  shows "\<exists>starts. window_starts L Ow = Inr starts \<and> starts \<noteq> [] \<and>
     (\<forall>k<length starts - 1. starts ! k = int (k * Ow)) \<and>
     last starts = int L - int Ow \<and>
     (\<Union>s\<in>set starts. {s..<s + int Ow}) = {0..<int L} \<and>
     (\<forall>j k. j < k \<and> k < length starts - 1 \<longrightarrow> starts ! j + int Ow \<le> starts ! k) \<and>
     (\<forall>j k. j < k \<and> k < length starts \<and> starts ! k < starts ! j + int Ow \<longrightarrow>
        j = length starts - 2 \<and> k = length starts - 1)"
proof -
  let ?n = "(L + Ow - 1) div Ow"
  let ?m = "?n - 1"
  let ?A = "map (\<lambda>k. int (k * Ow)) [0..<?m]"
  let ?S = "?A @ [int L - int Ow]"
  have up: "L \<le> ?n * Ow" and lo: "?n * Ow < L + Ow"
    using range_count_bounds [OF Ow, of L] by simp_all
  have n: "0 < ?n" using up Ow L by (cases "?n") simp_all
  obtain m' where nm: "?n = Suc m'" using n by (cases "?n") simp_all
  have eqn: "?m * Ow + Ow = ?n * Ow"
    unfolding nm by simp
  have mlo: "?m * Ow < L" using eqn lo by simp
  have mup: "L \<le> ?m * Ow + Ow" using eqn up by simp
  have ws: "window_starts L Ow = Inr ?S" using Ow L by (rule window_starts_closed)
  have len: "length ?S - 1 = ?m" by simp
  have nth_front: "?S ! k = int (k * Ow)" if "k < ?m" for k
    using that by (simp add: nth_append)
  have nth_last: "?S ! ?m = int L - int Ow"
    by (simp add: nth_append)
  have cover: "(\<Union>s\<in>set ?S. {s..<s + int Ow}) = {0..<int L}"
  proof -
    define a where "a = int ?m * int Ow"
    have "(\<Union>s\<in>set ?A. {s..<s + int Ow}) =
        (\<Union>k<?m. {int k * int Ow..<int k * int Ow + int Ow})"
      by (simp add: atLeast0LessThan)
    also have "\<dots> = {0..<a}"
      unfolding a_def by (rule union_blocks) simp
    finally have A: "(\<Union>s\<in>set ?A. {s..<s + int Ow}) = {0..<a}" .
    have "int (?m * Ow) < int L" "int L \<le> int (?m * Ow + Ow)"
      using mlo mup by (simp_all only: of_nat_less_iff of_nat_le_iff)
    then have lo': "a < int L" and up': "int L \<le> a + int Ow"
      by (simp_all add: a_def)
    have "(\<Union>s\<in>set ?S. {s..<s + int Ow}) = {0..<a} \<union> {int L - int Ow..<int L}"
      using A by (simp add: Un_commute)
    also have "\<dots> = {0..<int L}"
      using lo' up' L by auto
    finally show ?thesis .
  qed
  have mono: "?S ! j + int Ow \<le> ?S ! k" if "j < k" "k < ?m" for j k
  proof -
    have j: "j < ?m" using that by simp
    have "Suc j * Ow \<le> k * Ow" using that by (intro mult_le_mono1) simp
    then have "j * Ow + Ow \<le> k * Ow" by simp
    then have "int (j * Ow + Ow) \<le> int (k * Ow)" by (simp only: of_nat_le_iff)
    then have "int (j * Ow) + int Ow \<le> int (k * Ow)" by (simp only: of_nat_add)
    then show ?thesis
      unfolding nth_front [OF j] nth_front [OF that(2)] .
  qed
  have only_last: "j = length ?S - 2 \<and> k = length ?S - 1"
    if "j < k" "k < length ?S" "?S ! k < ?S ! j + int Ow" for j k
  proof -
    have k: "k = ?m"
    proof (rule ccontr)
      assume "k \<noteq> ?m"
      then have "k < ?m" using that(2) by simp
      then show False using mono [OF that(1)] that(3) by linarith
    qed
    have j: "j < ?m" using that(1) k by simp
    have "j = ?m - 1"
    proof (rule ccontr)
      assume "j \<noteq> ?m - 1"
      then have "Suc (Suc j) \<le> ?m" using j by simp
      then have "Suc (Suc j) * Ow \<le> ?m * Ow" by (rule mult_le_mono1)
      then have "j * Ow + Ow + Ow < L" using mlo by simp
      then have "int (j * Ow + Ow + Ow) < int L" by (simp only: of_nat_less_iff)
      then have "int (j * Ow) + int Ow + int Ow < int L" by (simp only: of_nat_add)
      then have "int (j * Ow) + int Ow \<le> int L - int Ow" by linarith
      moreover have "?S ! k < ?S ! j + int Ow" by (rule that(3))
      ultimately show False
        unfolding k nth_last nth_front [OF j] by linarith
    qed
    then show ?thesis using k by simp
  qed
  have last: "last ?S = int L - int Ow" by simp
  have front: "\<forall>k<length ?S - 1. ?S ! k = int (k * Ow)"
    using nth_front len by simp
  have disj: "\<forall>j k. j < k \<and> k < length ?S - 1 \<longrightarrow> ?S ! j + int Ow \<le> ?S ! k"
    using mono len by simp
  have ov: "\<forall>j k. j < k \<and> k < length ?S \<and> ?S ! k < ?S ! j + int Ow \<longrightarrow>
        j = length ?S - 2 \<and> k = length ?S - 1"
    using only_last by blast
  have ne: "?S \<noteq> []" by simp
  from ws ne front last cover disj ov show ?thesis by blast
qed

subsection \<open>Writing a window into a buffer\<close>

lemma length_overwrite:
  "s + length blk \<le> length xs \<Longrightarrow> length (overwrite xs s blk) = length xs"
  by (simp add: overwrite_def)

lemma nth_overwrite:
  assumes "s + length blk \<le> length xs" and "t < length xs"
  shows "overwrite xs s blk ! t =
     (if s \<le> t \<and> t < s + length blk then blk ! (t - s) else xs ! t)"
proof -
  have a: "length (take s xs) = s" using assms by simp
  consider "t < s" | "s \<le> t" "t < s + length blk" | "s + length blk \<le> t" by linarith
  then show ?thesis
  proof cases
    case 1
    then show ?thesis using a by (simp add: overwrite_def nth_append)
  next
    case 2
    then have "t - s < length blk" by simp
    then show ?thesis using 2 a by (simp add: overwrite_def nth_append)
  next
    case 3
    then have "\<not> t < s" "\<not> t - s < length blk" by simp_all
    moreover have "s + length blk + (t - s - length blk) = t" using 3 by simp
    ultimately show ?thesis using 3 a assms by (simp add: overwrite_def nth_append)
  qed
qed

lemma slice_index_nat: "slice_index n (int s) = min s n"
  by (simp add: slice_index_def)

lemma set_rows_exact:
  assumes "s + Ow \<le> length (rws dst)" and "length (rws src) = Ow"
    and "ncols src = ncols dst"
  shows "set_rows dst (int s) (int s + int Ow) src =
     Inr (Arr2 (ncols dst) (overwrite (rws dst) s (rws src)))"
proof -
  have e: "int s + int Ow = int (s + Ow)" by simp
  have "slice_index (length (rws dst)) (int s) = s"
    using assms(1) by (simp add: slice_index_nat)
  moreover have "slice_index (length (rws dst)) (int s + int Ow) = s + Ow"
    unfolding e using assms(1) by (simp only: slice_index_nat min_absorb1)
  ultimately show ?thesis
    using assms by (simp add: set_rows_def overwrite_def Let_def)
qed

lemma get_rows_exact:
  assumes "s + Iw \<le> length (rws a)"
  shows "get_rows a (int s) (int s + int Iw) = Arr2 (ncols a) (take Iw (drop s (rws a)))"
proof -
  have e: "int s + int Iw = int (s + Iw)" by simp
  have "slice_index (length (rws a)) (int s) = s"
    using assms by (simp add: slice_index_nat)
  moreover have "slice_index (length (rws a)) (int s + int Iw) = s + Iw"
    unfolding e using assms by (simp only: slice_index_nat min_absorb1)
  ultimately show ?thesis
    by (simp add: get_rows_def Let_def)
qed

lemma save_predictions_exact:
  assumes "k \<le> ns" and "length parts = ns" and "length preds = ns"
    and "\<forall>i<ns. length (rws (parts ! i)) = Ow \<and> ncols (parts ! i) = c"
    and "\<forall>i<ns. s + Ow \<le> length (rws (preds ! i)) \<and> ncols (preds ! i) = c"
  shows "save_predictions [k..<ns] (int s) Ow parts preds =
     Inr (map (\<lambda>i. if k \<le> i then Arr2 c (overwrite (rws (preds ! i)) s (rws (parts ! i)))
                    else preds ! i) [0..<ns])"
  using assms
proof (induction "ns - k" arbitrary: k preds)
  case 0
  then have "k = ns" by simp
  moreover have "map (\<lambda>i. if ns \<le> i then Arr2 c (overwrite (rws (preds ! i)) s (rws (parts ! i)))
                    else preds ! i) [0..<ns] = preds"
    using "0.prems"(3) by (intro nth_equalityI) simp_all
  ultimately show ?case by simp
next
  case (Suc d)
  then have k: "k < ns" by simp
  let ?p = "Arr2 c (overwrite (rws (preds ! k)) s (rws (parts ! k)))"
  let ?preds = "preds[k := ?p]"
  have sr: "set_rows (preds ! k) (int s) (int s + int Ow) (parts ! k) = Inr ?p"
    using set_rows_exact [of s Ow "preds ! k" "parts ! k"] Suc.prems(4,5) k by simp
  have up: "[k..<ns] = k # [Suc k..<ns]" using k by (simp add: upt_conv_Cons)
  have d: "d = ns - Suc k" using Suc.hyps(2) by simp
  have inv: "\<forall>i<ns. s + Ow \<le> length (rws (?preds ! i)) \<and> ncols (?preds ! i) = c"
    using Suc.prems(3,4,5) k by (simp add: nth_list_update length_overwrite)
  have ih: "save_predictions [Suc k..<ns] (int s) Ow parts ?preds =
     Inr (map (\<lambda>i. if Suc k \<le> i then Arr2 c (overwrite (rws (?preds ! i)) s (rws (parts ! i)))
                    else ?preds ! i) [0..<ns])"
    using Suc.hyps(1) [OF d _ Suc.prems(2) _ Suc.prems(4) inv] k Suc.prems(3) by simp
  have "map (\<lambda>i. if Suc k \<le> i then Arr2 c (overwrite (rws (?preds ! i)) s (rws (parts ! i)))
                    else ?preds ! i) [0..<ns] =
        map (\<lambda>i. if k \<le> i then Arr2 c (overwrite (rws (preds ! i)) s (rws (parts ! i)))
                    else preds ! i) [0..<ns]"
  proof (rule nth_equalityI)
    fix i assume "i < length (map (\<lambda>i. if Suc k \<le> i
        then Arr2 c (overwrite (rws (?preds ! i)) s (rws (parts ! i))) else ?preds ! i) [0..<ns])"
    then have i: "i < ns" by simp
    consider "i < k" | "i = k" | "Suc k \<le> i" by linarith
    then show "map (\<lambda>i. if Suc k \<le> i
        then Arr2 c (overwrite (rws (?preds ! i)) s (rws (parts ! i))) else ?preds ! i) [0..<ns] ! i =
      map (\<lambda>i. if k \<le> i then Arr2 c (overwrite (rws (preds ! i)) s (rws (parts ! i)))
                    else preds ! i) [0..<ns] ! i"
      using i Suc.prems(3) by cases (simp_all add: nth_list_update)
  qed simp
  then show ?case
    using k Suc.prems(2,3) sr ih unfolding up by simp
qed

subsection \<open>The tiling loop\<close>

lemma tile_loop_exact:
  assumes inf: "\<forall>w. length (rws w) = Iw \<and> ncols w = ncols padded \<longrightarrow>
      (\<exists>parts. infer w = Inr parts \<and> length parts = ns \<and>
         (\<forall>p\<in>set parts. length (rws p) = Ow \<and> ncols p = c))"
    and ps: "\<forall>p\<in>set ps. 0 \<le> window_start L Ow p \<and> nat (window_start L Ow p) + Ow \<le> L \<and>
      nat (window_start L Ow p) + Iw \<le> length (rws padded)"
    and len: "length preds = ns"
    and shp: "\<forall>i<ns. length (rws (preds ! i)) = L \<and> ncols (preds ! i) = c"
  shows "tile_loop infer ns padded L Iw Ow ps preds =
     Inr (map (\<lambda>i. Arr2 c
            (fold (\<lambda>p rows. overwrite rows (nat (window_start L Ow p))
               (rws (projr (infer (get_rows padded (window_start L Ow p)
                                     (window_start L Ow p + int Iw))) ! i)))
               ps (rws (preds ! i)))) [0..<ns])"
  using ps len shp
proof (induction ps arbitrary: preds)
  case Nil
  have "map (\<lambda>i. Arr2 c (rws (preds ! i))) [0..<ns] = preds"
  proof (rule nth_equalityI)
    show "length (map (\<lambda>i. Arr2 c (rws (preds ! i))) [0..<ns]) = length preds"
      using Nil.prems by simp
  next
    fix i assume "i < length (map (\<lambda>i. Arr2 c (rws (preds ! i))) [0..<ns])"
    then have i: "i < ns" by simp
    then have "ncols (preds ! i) = c" using Nil.prems by simp
    then have "Arr2 c (rws (preds ! i)) = preds ! i" by (cases "preds ! i") simp
    then show "map (\<lambda>i. Arr2 c (rws (preds ! i))) [0..<ns] ! i = preds ! i" using i by simp
  qed
  then show ?case by simp
next
  case (Cons p ps)
  let ?ws = "window_start L Ow p"
  let ?s = "nat ?ws"
  have s: "int ?s = ?ws" and sO: "?s + Ow \<le> L" and sI: "?s + Iw \<le> length (rws padded)"
    using Cons.prems(1) by simp_all
  let ?w = "get_rows padded ?ws (?ws + int Iw)"
  have w: "?w = Arr2 (ncols padded) (take Iw (drop ?s (rws padded)))"
    using get_rows_exact [OF sI] unfolding s .
  have "length (rws ?w) = Iw \<and> ncols ?w = ncols padded"
    unfolding w using sI by simp
  with inf obtain parts where parts: "infer ?w = Inr parts" "length parts = ns"
    "\<forall>p\<in>set parts. length (rws p) = Ow \<and> ncols p = c"
    by blast
  have pshape: "\<forall>i<ns. length (rws (parts ! i)) = Ow \<and> ncols (parts ! i) = c"
    using parts(2,3) by simp
  have dshape: "\<forall>i<ns. ?s + Ow \<le> length (rws (preds ! i)) \<and> ncols (preds ! i) = c"
    using Cons.prems(3) sO by simp
  let ?preds = "map (\<lambda>i. Arr2 c (overwrite (rws (preds ! i)) ?s (rws (parts ! i)))) [0..<ns]"
  have "save_predictions [0..<ns] (int ?s) Ow parts preds =
      Inr (map (\<lambda>i. if 0 \<le> i then Arr2 c (overwrite (rws (preds ! i)) ?s (rws (parts ! i)))
                    else preds ! i) [0..<ns])"
    by (rule save_predictions_exact [OF _ parts(2) Cons.prems(2) pshape dshape]) simp
  then have save: "save_predictions [0..<ns] ?ws Ow parts preds = Inr ?preds"
    unfolding s by simp
  have len': "length ?preds = ns" by simp
  have shp': "\<forall>i<ns. length (rws (?preds ! i)) = L \<and> ncols (?preds ! i) = c"
    using Cons.prems(3) sO pshape by (simp add: length_overwrite)
  have ps': "\<forall>p\<in>set ps. 0 \<le> window_start L Ow p \<and> nat (window_start L Ow p) + Ow \<le> L \<and>
      nat (window_start L Ow p) + Iw \<le> length (rws padded)"
    using Cons.prems(1) by simp
  have step: "tile_loop infer ns padded L Iw Ow (p # ps) preds =
      tile_loop infer ns padded L Iw Ow ps ?preds"
    by (simp add: Let_def parts(1) save)
  have "map (\<lambda>i. Arr2 c
            (fold (\<lambda>p rows. overwrite rows (nat (window_start L Ow p))
               (rws (projr (infer (get_rows padded (window_start L Ow p)
                                     (window_start L Ow p + int Iw))) ! i)))
               ps (rws (?preds ! i)))) [0..<ns] =
      map (\<lambda>i. Arr2 c
            (fold (\<lambda>p rows. overwrite rows (nat (window_start L Ow p))
               (rws (projr (infer (get_rows padded (window_start L Ow p)
                                     (window_start L Ow p + int Iw))) ! i)))
               (p # ps) (rws (preds ! i)))) [0..<ns]"
    by (rule map_cong) (simp_all add: parts(1))
  then show ?case
    unfolding step Cons.IH [OF ps' len' shp'] by simp
qed

lemma fold_blocks:
  assumes "0 < Ow" and "m * Ow \<le> length rows0" and "\<forall>k<m. length (blk (k * Ow)) = Ow"
  shows "length (fold (\<lambda>s r. overwrite r s (blk s)) (map (\<lambda>k. k * Ow) [0..<m]) rows0) =
      length rows0 \<and>
    (\<forall>t<length rows0.
       fold (\<lambda>s r. overwrite r s (blk s)) (map (\<lambda>k. k * Ow) [0..<m]) rows0 ! t =
         (if t < m * Ow then blk ((t div Ow) * Ow) ! (t - (t div Ow) * Ow) else rows0 ! t))"
  using assms(2,3)
proof (induction m)
  case 0
  show ?case by simp
next
  case (Suc m)
  let ?F = "fold (\<lambda>s r. overwrite r s (blk s)) (map (\<lambda>k. k * Ow) [0..<m]) rows0"
  have m: "m * Ow \<le> length rows0" and mO: "m * Ow + Ow \<le> length rows0"
    using Suc.prems(1) by simp_all
  have bl: "length (blk (m * Ow)) = Ow" using Suc.prems(2) by simp
  from Suc.IH [OF m] Suc.prems(2)
  have lenF: "length ?F = length rows0"
    and nthF: "\<forall>t<length rows0. ?F ! t =
         (if t < m * Ow then blk ((t div Ow) * Ow) ! (t - (t div Ow) * Ow) else rows0 ! t)"
    by simp_all
  have F': "fold (\<lambda>s r. overwrite r s (blk s)) (map (\<lambda>k. k * Ow) [0..<Suc m]) rows0 =
      overwrite ?F (m * Ow) (blk (m * Ow))"
    by simp
  have fit: "m * Ow + length (blk (m * Ow)) \<le> length ?F" using bl mO lenF by simp
  have "overwrite ?F (m * Ow) (blk (m * Ow)) ! t =
      (if t < Suc m * Ow then blk ((t div Ow) * Ow) ! (t - (t div Ow) * Ow) else rows0 ! t)"
    if t: "t < length rows0" for t
  proof -
    have tF: "t < length ?F" using t lenF by simp
    note nth = nth_overwrite [OF fit tF, unfolded bl]
    consider "t < m * Ow" | "m * Ow \<le> t" "t < m * Ow + Ow" | "m * Ow + Ow \<le> t" by linarith
    then show ?thesis
    proof cases
      case 1
      then show ?thesis using nth nthF t by simp
    next
      case 2
      have "t div Ow = m"
        using 2 assms(1) by (intro div_nat_eqI) (simp_all add: mult.commute)
      then show ?thesis using nth 2 by simp
    next
      case 3
      then show ?thesis using nth nthF t by simp
    qed
  qed
  then show ?case unfolding F' using fit lenF by (simp add: length_overwrite)
qed

lemma tiled_rows:
  assumes Ow: "0 < Ow" and lo: "m * Ow < L" and up: "L \<le> m * Ow + Ow" and OL: "Ow \<le> L"
    and len: "length rows0 = L"
    and blk: "\<forall>k<m. length (blk (k * Ow)) = Ow" "length (blk (L - Ow)) = Ow"
    and t: "t < L"
  shows "fold (\<lambda>s r. overwrite r s (blk s)) (map (\<lambda>k. k * Ow) [0..<m] @ [L - Ow]) rows0 ! t =
     (if L - Ow \<le> t then blk (L - Ow) ! (t - (L - Ow))
      else blk ((t div Ow) * Ow) ! (t - (t div Ow) * Ow))"
proof -
  let ?F = "fold (\<lambda>s r. overwrite r s (blk s)) (map (\<lambda>k. k * Ow) [0..<m]) rows0"
  have m: "m * Ow \<le> length rows0" using lo len by simp
  from fold_blocks [OF Ow m blk(1)]
  have lenF: "length ?F = L"
    and nthF: "\<forall>t<L. ?F ! t =
         (if t < m * Ow then blk ((t div Ow) * Ow) ! (t - (t div Ow) * Ow) else rows0 ! t)"
    using len by simp_all
  have fit: "L - Ow + length (blk (L - Ow)) \<le> length ?F" using blk(2) lenF OL by simp
  have tF: "t < length ?F" using t lenF by simp
  note nth = nth_overwrite [OF fit tF, unfolded blk(2)]
  show ?thesis
  proof (cases "L - Ow \<le> t")
    case True
    then show ?thesis using nth t OL by simp
  next
    case False
    then have "t < m * Ow" using up by linarith
    then show ?thesis using nth nthF t False by simp
  qed
qed

lemma predict_windows_tiled:
  assumes Ow: "0 < Ow" and OL: "Ow \<le> L" and OI: "Ow \<le> Iw" and ev: "even (Iw - Ow)"
    and L: "length (rws m) = L"
    and pad: "np_pad_rows m ((int Iw - int Ow) div 2) = Inr padded"
    and inf: "\<forall>w. length (rws w) = Iw \<and> ncols w = ncols m \<longrightarrow>
      (\<exists>parts. infer w = Inr parts \<and> length parts = ns \<and>
         (\<forall>p\<in>set parts. length (rws p) = Ow \<and> ncols p = ncols m))"
  shows "\<exists>preds. predict_windows infer ns m Iw Ow = Inr preds \<and> length preds = ns \<and>
     (\<forall>i<ns. ncols (preds ! i) = ncols m \<and> length (rws (preds ! i)) = L \<and>
        (\<forall>t<L. \<forall>parts.
           infer (get_rows padded
                    (int (if L - Ow \<le> t then L - Ow else (t div Ow) * Ow))
                    (int (if L - Ow \<le> t then L - Ow else (t div Ow) * Ow) + int Iw)) = Inr parts \<longrightarrow>
           rws (preds ! i) ! t =
             rws (parts ! i) ! (t - (if L - Ow \<le> t then L - Ow else (t div Ow) * Ow))))"
proof -
  let ?c = "ncols m"
  let ?n = "(L + Ow - 1) div Ow"
  let ?m = "?n - 1"
  let ?ps = "map (\<lambda>k. k * Ow) [0..<?n]"
  let ?ws = "window_start L Ow"
  let ?z = "replicate L (replicate ?c (Fin 0))"
  let ?preds0 = "replicate ns (np_zeros L ?c)"
  \<comment> \<open>the padded mixture\<close>
  have pd: "(int Iw - int Ow) div 2 = int ((Iw - Ow) div 2)"
    using OI by (simp add: of_nat_diff zdiv_int)
  have half: "(Iw - Ow) div 2 + (Iw - Ow) div 2 = Iw - Ow"
    using ev by (metis dvd_mult_div_cancel mult_2)
  have pval: "padded = Arr2 ?c (replicate ((Iw - Ow) div 2) (replicate ?c (Fin 0)) @ rws m @
      replicate ((Iw - Ow) div 2) (replicate ?c (Fin 0)))"
    using pad unfolding pd by (simp add: np_pad_rows_def)
  have cp: "ncols padded = ?c" unfolding pval by simp
  have "length (rws padded) = L + ((Iw - Ow) div 2 + (Iw - Ow) div 2)"
    unfolding pval using L by simp
  then have lp: "length (rws padded) = L + (Iw - Ow)"
    unfolding half .
  \<comment> \<open>the window starts\<close>
  have up: "L \<le> ?n * Ow" and lo: "?n * Ow < L + Ow"
    using range_count_bounds [OF Ow, of L] by simp_all
  have n: "0 < ?n" using up Ow OL by (cases "?n") simp_all
  then obtain m' where nm: "?n = Suc m'" by (cases "?n") simp_all
  have eqn: "?m * Ow + Ow = ?n * Ow" unfolding nm by simp
  have mlo: "?m * Ow < L" using eqn lo by simp
  have mup: "L \<le> ?m * Ow + Ow" using eqn up by simp
  have rg: "py_range L Ow = Inr ?ps" using Ow by (simp add: py_range_def)
  have "window_starts L Ow = Inr (map ?ws ?ps)" by (simp add: window_starts_def rg)
  then have starts: "map ?ws ?ps = map (\<lambda>k. int (k * Ow)) [0..<?m] @ [int L - int Ow]"
    using window_starts_closed [OF Ow OL] by simp
  have nat_starts: "map (\<lambda>p. nat (?ws p)) ?ps = map (\<lambda>k. k * Ow) [0..<?m] @ [L - Ow]"
  proof -
    have "map (\<lambda>p. nat (?ws p)) ?ps = map nat (map ?ws ?ps)" by simp
    also have "\<dots> = map nat (map (\<lambda>k. int (k * Ow)) [0..<?m] @ [int L - int Ow])"
      unfolding starts ..
    also have "\<dots> = map (\<lambda>k. k * Ow) [0..<?m] @ [L - Ow]"
      using OL by (simp add: comp_def nat_diff_distrib' nat_mult_distrib)
    finally show ?thesis .
  qed
  have in_range: "0 \<le> ?ws p \<and> nat (?ws p) + Ow \<le> L \<and> nat (?ws p) + Iw \<le> length (rws padded)"
    if "p \<in> set ?ps" for p
  proof -
    have "?ws p \<in> ?ws ` set ?ps" using that by (rule imageI)
    then have "?ws p \<in> set (map ?ws ?ps)" by (simp only: set_map)
    then consider k where "k < ?m" "?ws p = int (k * Ow)" | "?ws p = int L - int Ow"
      unfolding starts by auto
    then show ?thesis
    proof cases
      case 1
      have "Suc k * Ow \<le> ?m * Ow" using 1(1) by (intro mult_le_mono1) simp
      then have "k * Ow + Ow \<le> L" using mlo by simp
      moreover have "nat (?ws p) = k * Ow" unfolding 1(2) by (rule nat_int)
      moreover have "0 \<le> ?ws p" unfolding 1(2) by (rule of_nat_0_le_iff)
      ultimately show ?thesis using OI lp by simp
    next
      case 2
      then have "nat (?ws p) = L - Ow" using OL by (simp add: nat_diff_distrib')
      then show ?thesis using 2 OL OI lp by simp
    qed
  qed
  \<comment> \<open>the loop\<close>
  have inf': "\<forall>w. length (rws w) = Iw \<and> ncols w = ncols padded \<longrightarrow>
      (\<exists>parts. infer w = Inr parts \<and> length parts = ns \<and>
         (\<forall>p\<in>set parts. length (rws p) = Ow \<and> ncols p = ?c))"
    using inf cp by simp
  have len0: "length ?preds0 = ns" by simp
  have shp0: "\<forall>i<ns. length (rws (?preds0 ! i)) = L \<and> ncols (?preds0 ! i) = ?c"
    by (simp add: np_zeros_def)
  let ?blk = "\<lambda>i s. rws (projr (infer (get_rows padded (int s) (int s + int Iw))) ! i)"
  let ?G = "\<lambda>i p rows. overwrite rows (nat (?ws p))
               (rws (projr (infer (get_rows padded (?ws p) (?ws p + int Iw))) ! i))"
  let ?res = "map (\<lambda>i. Arr2 ?c (fold (?G i) ?ps (rws (?preds0 ! i)))) [0..<ns]"
  have loop: "tile_loop infer ns padded L Iw Ow ?ps ?preds0 = Inr ?res"
    using tile_loop_exact [OF inf' _ len0 shp0, of ?ps] in_range by blast
  have run: "predict_windows infer ns m Iw Ow = Inr ?res"
    unfolding predict_windows_def Let_def L pad rg using loop by simp
  \<comment> \<open>the rows of the result\<close>
  have foldeq: "fold (?G i) ?ps r0 =
      fold (\<lambda>s r. overwrite r s (?blk i s)) (map (\<lambda>k. k * Ow) [0..<?m] @ [L - Ow]) r0" for i r0
  proof -
    have "fold (?G i) ?ps r0 = fold ((\<lambda>s r. overwrite r s (?blk i s)) \<circ> (\<lambda>p. nat (?ws p))) ?ps r0"
    proof (rule fold_cong)
      fix p assume "p \<in> set ?ps"
      then have "int (nat (?ws p)) = ?ws p" using in_range by simp
      then show "?G i p = ((\<lambda>s r. overwrite r s (?blk i s)) \<circ> (\<lambda>p. nat (?ws p))) p"
        by (simp add: comp_def)
    qed simp_all
    also have "\<dots> = fold (\<lambda>s r. overwrite r s (?blk i s)) (map (\<lambda>p. nat (?ws p)) ?ps) r0"
      by (simp only: fold_map)
    finally show ?thesis unfolding nat_starts .
  qed
  have blk_len: "length (?blk i s) = Ow" if "i < ns" "s + Iw \<le> length (rws padded)" for i s
  proof -
    let ?w = "get_rows padded (int s) (int s + int Iw)"
    have "length (rws ?w) = Iw \<and> ncols ?w = ncols padded"
      unfolding get_rows_exact [OF that(2)] using that(2) by simp
    with inf' obtain parts where "infer ?w = Inr parts" "length parts = ns"
      "\<forall>p\<in>set parts. length (rws p) = Ow \<and> ncols p = ?c" by blast
    then show ?thesis using that(1) by simp
  qed
  have rows: "rws (?res ! i) ! t =
      rws (parts ! i) ! (t - (if L - Ow \<le> t then L - Ow else (t div Ow) * Ow))"
    if i: "i < ns" and t: "t < L"
      and p: "infer (get_rows padded
                    (int (if L - Ow \<le> t then L - Ow else (t div Ow) * Ow))
                    (int (if L - Ow \<le> t then L - Ow else (t div Ow) * Ow) + int Iw)) = Inr parts"
    for i t parts
  proof -
    have b1: "\<forall>k<?m. length (?blk i (k * Ow)) = Ow"
    proof (intro allI impI)
      fix k assume "k < ?m"
      then have "Suc k * Ow \<le> ?m * Ow" by (intro mult_le_mono1) simp
      then have "k * Ow + Iw \<le> length (rws padded)" using mlo OI lp by simp
      then show "length (?blk i (k * Ow)) = Ow" using i by (rule blk_len [rotated])
    qed
    have b2: "length (?blk i (L - Ow)) = Ow"
      using i by (rule blk_len) (use OL OI lp in simp)
    have z: "length (rws (?preds0 ! i)) = L" using i by (simp add: np_zeros_def)
    have "rws (?res ! i) ! t = fold (?G i) ?ps (rws (?preds0 ! i)) ! t"
      using i by simp
    also have "\<dots> = (if L - Ow \<le> t then ?blk i (L - Ow) ! (t - (L - Ow))
        else ?blk i ((t div Ow) * Ow) ! (t - (t div Ow) * Ow))"
      unfolding foldeq by (rule tiled_rows [OF Ow mlo mup OL z b1 b2 t])
    also have "\<dots> = rws (parts ! i) ! (t - (if L - Ow \<le> t then L - Ow else (t div Ow) * Ow))"
      using p by (cases "L - Ow \<le> t") simp_all
    finally show ?thesis .
  qed
  have shape: "\<forall>i<ns. ncols (?res ! i) = ?c \<and> length (rws (?res ! i)) = L"
  proof (intro allI impI)
    fix i assume i: "i < ns"
    have "length (fold (?G i) ?ps (rws (?preds0 ! i))) = L"
    proof -
      have b1: "\<forall>k<?m. length (?blk i (k * Ow)) = Ow"
      proof (intro allI impI)
        fix k assume "k < ?m"
        then have "Suc k * Ow \<le> ?m * Ow" by (intro mult_le_mono1) simp
        then have "k * Ow + Iw \<le> length (rws padded)" using mlo OI lp by simp
        then show "length (?blk i (k * Ow)) = Ow" using i by (rule blk_len [rotated])
      qed
      have b2: "length (?blk i (L - Ow)) = Ow"
        using i by (rule blk_len) (use OL OI lp in simp)
      have z: "length (rws (?preds0 ! i)) = L" using i by (simp add: np_zeros_def)
      let ?F = "fold (\<lambda>s r. overwrite r s (?blk i s)) (map (\<lambda>k. k * Ow) [0..<?m]) (rws (?preds0 ! i))"
      have "?m * Ow \<le> length (rws (?preds0 ! i))" using mlo z by simp
      from fold_blocks [OF Ow this b1] have lF: "length ?F = L" using z by simp
      have "fold (?G i) ?ps (rws (?preds0 ! i)) = overwrite ?F (L - Ow) (?blk i (L - Ow))"
        unfolding foldeq by simp
      then show ?thesis using lF b2 OL by (simp add: length_overwrite)
    qed
    then show "ncols (?res ! i) = ?c \<and> length (rws (?res ! i)) = L" using i by simp
  qed
  have "length ?res = ns" by simp
  with run shape rows show ?thesis by blast
qed

lemma upt3: "[0..<3] = [0, 1, 2]"
  by (simp add: upt_rec)

lemma window_starts_scenario: "window_starts 1000 400 = Inr [0, 400, 600]"
  by (simp add: window_starts_def py_range_def window_start_def upt3)

text \<open>
  Claim C1.  For an output window of \<open>Ow > 0\<close> frames and a resampled mixture of
  \<open>L \<ge> Ow\<close> frames, the positions of the loop are \<open>0, Ow, 2 Ow, \<dots>\<close> and the last one
  is \<open>L - Ow\<close>; the output segments \<open>[s, s + Ow)\<close> cover exactly \<open>[0, L)\<close>; the segments
  before the last do not overlap, and two segments that overlap are the last two.  When
  the mixture is two-dimensional, the padding is symmetric and the separator returns,
  for every window of \<open>Iw\<close> frames, one block of \<open>Ow\<close> frames per source,
  \<^verbatim>\<open>predict_track\<close> returns one prediction of \<open>L\<close> frames per source, and frame
  \<open>t\<close> of it is frame \<open>t - s\<close> of the block computed for the window at \<open>s\<close>, where
  \<open>s = L - Ow\<close> for \<open>t \<ge> L - Ow\<close> and \<open>s = (t div Ow) * Ow\<close> before: every frame is
  written, and the end of the track comes from the last, shifted window.  For
  \<open>L = 1000\<close> and \<open>Ow = 400\<close> the positions are \<open>0, 400, 600\<close>.
\<close>

theorem tiling_coverage:
  assumes "0 < Ow" and "Ow \<le> L"
  shows
   "(\<exists>starts. window_starts L Ow = Inr starts \<and> starts \<noteq> [] \<and>
       (\<forall>k<length starts - 1. starts ! k = int (k * Ow)) \<and>
       last starts = int L - int Ow \<and>
       (\<Union>s\<in>set starts. {s..<s + int Ow}) = {0..<int L} \<and>
       (\<forall>j k. j < k \<and> k < length starts - 1 \<longrightarrow> starts ! j + int Ow \<le> starts ! k) \<and>
       (\<forall>j k. j < k \<and> k < length starts \<and> starts ! k < starts ! j + int Ow \<longrightarrow>
          j = length starts - 2 \<and> k = length starts - 1)) \<and>
    (length (shape mix_audio) = 2 \<and>
     resample ''kaiser_fast'' (adapt_channels model_config (as_arr2 mix_audio)) mix_sr
       (expected_sr model_config) = m \<and>
     length (rws m) = L \<and> Ow \<le> Iw \<and> even (Iw - Ow) \<and>
     np_pad_rows m ((int Iw - int Ow) div 2) = Inr padded \<and>
     (\<forall>w. length (rws w) = Iw \<and> ncols w = ncols m \<longrightarrow>
        (\<exists>parts. infer w = Inr parts \<and> length parts = num_sources model_config \<and>
           (\<forall>p\<in>set parts. length (rws p) = Ow \<and> ncols p = ncols m))) \<longrightarrow>
     (\<exists>preds. predict_track resample infer model_config mix_audio mix_sr (b, Iw, c) (b', Ow, c') =
          Inr preds \<and>
        length preds = num_sources model_config \<and>
        (\<forall>i<num_sources model_config.
           ncols (preds ! i) = ncols m \<and> length (rws (preds ! i)) = L \<and>
           (\<forall>t<L. \<forall>parts.
              infer (get_rows padded
                       (int (if L - Ow \<le> t then L - Ow else (t div Ow) * Ow))
                       (int (if L - Ow \<le> t then L - Ow else (t div Ow) * Ow) + int Iw)) =
                Inr parts \<longrightarrow>
              rws (preds ! i) ! t =
                rws (parts ! i) ! (t - (if L - Ow \<le> t then L - Ow else (t div Ow) * Ow)))))) \<and>
    window_starts 1000 400 = Inr [0, 400, 600]"
proof (intro conjI impI)
  show "\<exists>starts. window_starts L Ow = Inr starts \<and> starts \<noteq> [] \<and>
       (\<forall>k<length starts - 1. starts ! k = int (k * Ow)) \<and>
       last starts = int L - int Ow \<and>
       (\<Union>s\<in>set starts. {s..<s + int Ow}) = {0..<int L} \<and>
       (\<forall>j k. j < k \<and> k < length starts - 1 \<longrightarrow> starts ! j + int Ow \<le> starts ! k) \<and>
       (\<forall>j k. j < k \<and> k < length starts \<and> starts ! k < starts ! j + int Ow \<longrightarrow>
          j = length starts - 2 \<and> k = length starts - 1)"
    using assms by (rule window_starts_properties)
next
  assume h: "length (shape mix_audio) = 2 \<and>
     resample ''kaiser_fast'' (adapt_channels model_config (as_arr2 mix_audio)) mix_sr
       (expected_sr model_config) = m \<and>
     length (rws m) = L \<and> Ow \<le> Iw \<and> even (Iw - Ow) \<and>
     np_pad_rows m ((int Iw - int Ow) div 2) = Inr padded \<and>
     (\<forall>w. length (rws w) = Iw \<and> ncols w = ncols m \<longrightarrow>
        (\<exists>parts. infer w = Inr parts \<and> length parts = num_sources model_config \<and>
           (\<forall>p\<in>set parts. length (rws p) = Ow \<and> ncols p = ncols m)))"
  then have run: "predict_track resample infer model_config mix_audio mix_sr (b, Iw, c) (b', Ow, c') =
      predict_windows infer (num_sources model_config) m Iw Ow"
    by (simp add: predict_track_def)
  from h have h1: "Ow \<le> Iw" "even (Iw - Ow)" "length (rws m) = L"
    "np_pad_rows m ((int Iw - int Ow) div 2) = Inr padded"
    "\<forall>w. length (rws w) = Iw \<and> ncols w = ncols m \<longrightarrow>
        (\<exists>parts. infer w = Inr parts \<and> length parts = num_sources model_config \<and>
           (\<forall>p\<in>set parts. length (rws p) = Ow \<and> ncols p = ncols m))"
    by blast+
  show "\<exists>preds. predict_track resample infer model_config mix_audio mix_sr (b, Iw, c) (b', Ow, c') =
          Inr preds \<and>
        length preds = num_sources model_config \<and>
        (\<forall>i<num_sources model_config.
           ncols (preds ! i) = ncols m \<and> length (rws (preds ! i)) = L \<and>
           (\<forall>t<L. \<forall>parts.
              infer (get_rows padded
                       (int (if L - Ow \<le> t then L - Ow else (t div Ow) * Ow))
                       (int (if L - Ow \<le> t then L - Ow else (t div Ow) * Ow) + int Iw)) =
                Inr parts \<longrightarrow>
              rws (preds ! i) ! t =
                rws (parts ! i) ! (t - (if L - Ow \<le> t then L - Ow else (t div Ow) * Ow))))"
    unfolding run
    by (rule predict_windows_tiled [OF assms h1])
next
  show "window_starts 1000 400 = Inr [0, 400, 600]" by (rule window_starts_scenario)
qed

text \<open>
  Claim C4.  A mixture whose shape does not have two entries fails the assertion at the
  head of \<^verbatim>\<open>predict_track\<close>, whatever the resampler and the separator are: neither
  is reached.  The error that the specification calls \<open>InvalidInputError\<close> is the
  \<open>AssertionError\<close> of the source's \<^verbatim>\<open>assert\<close>.
\<close>

theorem predict_track_not_2d:
  "length (shape mix_audio) \<noteq> 2 \<Longrightarrow>
     predict_track resample infer model_config mix_audio mix_sr sep_input_shape sep_output_shape =
       Inl AssertionError"
  by (simp add: predict_track_def)

theorem predict_track_not_2d_witness:
  "length (shape (NDArray [4] [Fin 1, Fin 2, Fin 3, Fin 4])) \<noteq> 2 \<and>
   predict_track (\<lambda>t a r r'. a) (\<lambda>w. Inr [w])
     \<lparr>mono_downmix = False, expected_sr = 22050, num_sources = 1, task = ''voice''\<rparr>
     (NDArray [4] [Fin 1, Fin 2, Fin 3, Fin 4]) 44100 (1, 4, 1) (1, 2, 1) = Inl AssertionError"
  using predict_track_not_2d [of "NDArray [4] [Fin 1, Fin 2, Fin 3, Fin 4]" "\<lambda>t a r r'. a"
      "\<lambda>w. Inr [w]" "\<lparr>mono_downmix = False, expected_sr = 22050, num_sources = 1, task = ''voice''\<rparr>"
      44100 "(1, 4, 1)" "(1, 2, 1)"]
  by simp

theorem tiling_coverage_witness:
  "0 < (400::nat) \<and> (400::nat) \<le> 1000 \<and>
   window_starts 1000 400 = Inr [0, 400, 600] \<and>
   (\<exists>preds.
      predict_track (\<lambda>t a r r'. a) (\<lambda>w. Inr [Arr2 1 (replicate 400 [Fin 1])])
        \<lparr>mono_downmix = True, expected_sr = 22050, num_sources = 1, task = ''voice''\<rparr>
        (NDArray [1000, 1] (replicate 1000 (Fin 0))) 22050 (1, 600, 1) (1, 400, 1) = Inr preds \<and>
      length preds = 1 \<and> length (rws (preds ! 0)) = 1000 \<and>
      (\<forall>t<1000. rws (preds ! 0) ! t = [Fin 1]))"
proof -
  let ?R = "\<lambda>t a r r'. a :: arr2"
  let ?F = "\<lambda>w :: arr2. Inr [Arr2 1 (replicate 400 [Fin 1])] :: error + arr2 list"
  let ?cfg = "\<lparr>mono_downmix = True, expected_sr = 22050, num_sources = 1, task = ''voice''\<rparr>"
  let ?A = "NDArray [1000, 1] (replicate 1000 (Fin 0))"
  let ?m = "np_mean_axis1 (as_arr2 ?A)"
  let ?padded = "Arr2 1 (replicate 100 [Fin 0] @ rws ?m @ replicate 100 [Fin 0])"
  have h: "length (shape ?A) = 2 \<and>
     ?R ''kaiser_fast'' (adapt_channels ?cfg (as_arr2 ?A)) 22050 (expected_sr ?cfg) = ?m \<and>
     length (rws ?m) = 1000 \<and> (400::nat) \<le> 600 \<and> even (600 - 400 :: nat) \<and>
     np_pad_rows ?m ((int 600 - int 400) div 2) = Inr ?padded \<and>
     (\<forall>w. length (rws w) = 600 \<and> ncols w = ncols ?m \<longrightarrow>
        (\<exists>parts. ?F w = Inr parts \<and> length parts = num_sources ?cfg \<and>
           (\<forall>p\<in>set parts. length (rws p) = 400 \<and> ncols p = ncols ?m)))"
    by (simp add: adapt_channels_def np_mean_axis1_def as_arr2_def np_pad_rows_def)
  have pos: "0 < (400::nat)" "(400::nat) \<le> 1000" by simp_all
  note T = tiling_coverage [OF pos, where mix_audio = ?A and resample = ?R and model_config = ?cfg
      and mix_sr = 22050 and m = ?m and Iw = 600 and padded = ?padded and infer = ?F
      and b = 1 and c = 1 and b' = 1 and c' = 1]
  note C = T [THEN conjunct2, THEN conjunct1, THEN mp, OF h]
  note ws = T [THEN conjunct2, THEN conjunct2]
  from C obtain preds where P:
    "predict_track ?R ?F ?cfg ?A 22050 (1, 600, 1) (1, 400, 1) = Inr preds \<and>
     length preds = num_sources ?cfg \<and>
     (\<forall>i<num_sources ?cfg.
           ncols (preds ! i) = ncols ?m \<and> length (rws (preds ! i)) = 1000 \<and>
           (\<forall>t<1000. \<forall>parts.
              ?F (get_rows ?padded
                       (int (if 1000 - 400 \<le> t then 1000 - 400 else (t div 400) * 400))
                       (int (if 1000 - 400 \<le> t then 1000 - 400 else (t div 400) * 400) + int 600)) =
                Inr parts \<longrightarrow>
              rws (preds ! i) ! t =
                rws (parts ! i) ! (t - (if 1000 - 400 \<le> t then 1000 - 400 else (t div 400) * 400))))"
    by (rule exE)
  note run = P [THEN conjunct1]
  note len = P [THEN conjunct2, THEN conjunct1]
  have i0: "0 < num_sources ?cfg" by simp
  note r0 = P [THEN conjunct2, THEN conjunct2, rule_format, OF i0]
  note rlen = r0 [THEN conjunct2, THEN conjunct1]
  note rows = r0 [THEN conjunct2, THEN conjunct2, rule_format]
  have "rws (preds ! 0) ! t = [Fin 1]" if t: "t < 1000" for t
  proof -
    let ?s = "if 1000 - 400 \<le> t then 1000 - 400 else (t div 400) * 400"
    have "rws (preds ! 0) ! t = rws ([Arr2 1 (replicate 400 [Fin 1])] ! 0) ! (t - ?s)"
      using rows t by (simp)
    moreover have "t - ?s < 400"
    proof (cases "1000 - 400 \<le> t")
      case True
      then show ?thesis using t by simp
    next
      case False
      have "t - (t div 400) * 400 = t mod 400" by (simp add: minus_div_mult_eq_mod)
      then show ?thesis using False by simp
    qed
    ultimately show ?thesis by (simp)
  qed
  moreover have "length (rws (preds ! 0)) = 1000" by (rule rlen)
  moreover have "length preds = 1" using len by simp
  ultimately show ?thesis using run ws by auto
qed

subsection \<open>Mixtures shorter than one output window\<close>

lemma py_range_short: "0 < L \<Longrightarrow> L < Ow \<Longrightarrow> py_range L Ow = Inr [0]"
proof -
  assume a: "0 < L" "L < Ow"
  have "(L + Ow - 1) div Ow = 1"
    using a by (intro div_nat_eqI) simp_all
  then show ?thesis using a by (simp add: py_range_def)
qed

lemma set_rows_short:
  assumes "0 < L" and "L < Ow" and "length (rws dst) = L" and "length (rws src) = Ow"
  shows "set_rows dst (int L - int Ow) (int L - int Ow + int Ow) src = Inl ValueError"
proof -
  have e: "slice_index L (int L - int Ow + int Ow) = L"
    by (simp add: slice_index_def)
  have "slice_index L (int L - int Ow + int Ow) - slice_index L (int L - int Ow) \<le> L"
    unfolding e by simp
  then have "Ow \<noteq> slice_index L (int L - int Ow + int Ow) - slice_index L (int L - int Ow)"
    using assms(2) by linarith
  moreover have "Ow \<noteq> 1" using assms(1,2) by simp
  ultimately show ?thesis
    using assms(3,4) by (simp add: set_rows_def Let_def)
qed

lemma predict_windows_short:
  assumes L: "0 < L" "L < Ow" and len: "length (rws m) = L" and ns: "0 < ns"
    and inf: "\<forall>w parts. infer w = Inr parts \<longrightarrow> (\<forall>p\<in>set parts. length (rws p) = Ow)"
  shows "\<exists>e. predict_windows infer ns m Iw Ow = Inl e"
proof (cases "np_pad_rows m ((int Iw - int Ow) div 2)")
  case (Inl e)
  then show ?thesis by (simp add: predict_windows_def Let_def)
next
  case (Inr padded)
  let ?preds = "replicate ns (np_zeros L (ncols m))"
  have ws: "window_start L Ow 0 = int L - int Ow"
    using L by (simp add: window_start_def)
  have up: "[0..<ns] = 0 # [1..<ns]" using ns by (simp add: upt_conv_Cons)
  have p0: "length (rws (?preds ! 0)) = L" using ns by (simp add: np_zeros_def)
  have "\<exists>e. tile_loop infer ns padded L Iw Ow [0] ?preds = Inl e"
  proof (cases "infer (get_rows padded (int L - int Ow) (int L - int Ow + int Iw))")
    case (Inl e)
    then show ?thesis by (simp add: ws Let_def)
  next
    case (Inr parts)
    show ?thesis
    proof (cases "parts = []")
      case True
      then show ?thesis using Inr by (simp add: ws Let_def up)
    next
      case False
      then have "parts ! 0 \<in> set parts" by simp
      then have "length (rws (parts ! 0)) = Ow" using inf Inr by blast
      from set_rows_short [OF L p0 this]
      have "save_predictions [0..<ns] (int L - int Ow) Ow parts ?preds = Inl ValueError"
        unfolding up using False ns by simp
      then show ?thesis using Inr by (simp add: ws Let_def)
    qed
  qed
  then show ?thesis
    using Inr L by (simp add: predict_windows_def Let_def len py_range_short)
qed

text \<open>
  Claim C5 does not hold of the code.  For a mixture of \<open>0 < L < Ow\<close> frames the range
  has the one position 0 and the loop body replaces it by \<open>L - Ow\<close>, which is negative;
  the slice of the prediction that starts there has fewer than \<open>Ow\<close> frames, and with
  a separator that returns blocks of \<open>Ow\<close> frames \<^verbatim>\<open>predict_track\<close> raises an error
  instead of returning predictions.
\<close>

theorem short_track_negative_start:
  assumes "0 < L" and "L < Ow"
  shows "window_starts L Ow = Inr [int L - int Ow] \<and> int L - int Ow < 0 \<and>
    (length (shape mix_audio) = 2 \<and>
     length (rws (resample ''kaiser_fast'' (adapt_channels model_config (as_arr2 mix_audio)) mix_sr
       (expected_sr model_config))) = L \<and>
     0 < num_sources model_config \<and>
     (\<forall>w parts. infer w = Inr parts \<longrightarrow> (\<forall>p\<in>set parts. length (rws p) = Ow)) \<longrightarrow>
     (\<exists>e. predict_track resample infer model_config mix_audio mix_sr (b, Iw, c) (b', Ow, c') =
        Inl e))"
proof (intro conjI impI)
  show "window_starts L Ow = Inr [int L - int Ow]"
    using assms by (simp add: window_starts_def py_range_short window_start_def)
  show "int L - int Ow < 0" using assms by simp
next
  assume h: "length (shape mix_audio) = 2 \<and>
     length (rws (resample ''kaiser_fast'' (adapt_channels model_config (as_arr2 mix_audio)) mix_sr
       (expected_sr model_config))) = L \<and>
     0 < num_sources model_config \<and>
     (\<forall>w parts. infer w = Inr parts \<longrightarrow> (\<forall>p\<in>set parts. length (rws p) = Ow))"
  then have "\<exists>e. predict_windows infer (num_sources model_config)
      (resample ''kaiser_fast'' (adapt_channels model_config (as_arr2 mix_audio)) mix_sr
       (expected_sr model_config)) Iw Ow = Inl e"
    using assms by (intro predict_windows_short) blast+
  then show "\<exists>e. predict_track resample infer model_config mix_audio mix_sr (b, Iw, c) (b', Ow, c') =
        Inl e"
    using h by (simp add: predict_track_def)
qed

theorem short_track_negative_start_witness:
  "0 < (3::nat) \<and> (3::nat) < 4 \<and> window_starts 3 4 = Inr [- 1] \<and>
   predict_track (\<lambda>t a r r'. a) (\<lambda>w. Inr [np_zeros 4 2])
     \<lparr>mono_downmix = False, expected_sr = 22050, num_sources = 1, task = ''voice''\<rparr>
     (NDArray [3, 2] [Fin 1, Fin 2, Fin 3, Fin 4, Fin 5, Fin 6]) 22050 (1, 4, 2) (1, 4, 2) =
     Inl ValueError"
proof -
  let ?R = "\<lambda>t a r r'. a :: arr2"
  let ?F = "\<lambda>w :: arr2. Inr [np_zeros 4 2] :: error + arr2 list"
  let ?cfg = "\<lparr>mono_downmix = False, expected_sr = 22050, num_sources = 1, task = ''voice''\<rparr>"
  let ?A = "NDArray [3, 2] [Fin 1, Fin 2, Fin 3, Fin 4, Fin 5, Fin 6]"
  have run: "predict_track ?R ?F ?cfg ?A 22050 (1, 4, 2) (1, 4, 2) = Inl ValueError"
    by (simp add: predict_track_def predict_windows_def adapt_channels_def as_arr2_def
      np_zeros_def np_pad_rows_def py_range_def window_start_def get_rows_def set_rows_def
      slice_index_def upt_rec)
  have pos: "0 < (3::nat)" "(3::nat) < 4" by simp_all
  from short_track_negative_start [OF pos, of ?A ?R ?cfg 22050 ?F 1 4 2 1 2]
  have "window_starts 3 4 = Inr [- 1]" by simp
  then show ?thesis using run by simp
qed

subsection \<open>Channel counts\<close>

lemma set_rows_ncols: "set_rows dst a b src = Inr p \<Longrightarrow> ncols p = ncols dst"
  by (auto simp: set_rows_def Let_def split: if_splits)

lemma save_predictions_ncols:
  "save_predictions idx s Ow parts preds = Inr r \<Longrightarrow>
     length r = length preds \<and> (\<forall>i<length preds. ncols (r ! i) = ncols (preds ! i))"
proof (induction idx arbitrary: preds)
  case Nil
  then show ?case by simp
next
  case (Cons k idx)
  from Cons.prems obtain p where k: "k < length preds"
    and p: "set_rows (preds ! k) s (s + int Ow) (parts ! k) = Inr p"
    and rest: "save_predictions idx s Ow parts (preds[k := p]) = Inr r"
    by (auto split: if_splits sum.splits)
  from Cons.IH [OF rest] have l: "length r = length preds"
    and n: "\<forall>i<length preds. ncols (r ! i) = ncols (preds[k := p] ! i)"
    by simp_all
  have "ncols (preds[k := p] ! i) = ncols (preds ! i)" if "i < length preds" for i
    using that set_rows_ncols [OF p] by (cases "i = k") simp_all
  then show ?case using l n by simp
qed

lemma tile_loop_ncols:
  "tile_loop infer ns padded L Iw Ow ps preds = Inr r \<Longrightarrow>
     length r = length preds \<and> (\<forall>i<length preds. ncols (r ! i) = ncols (preds ! i))"
proof (induction ps arbitrary: preds)
  case Nil
  then show ?case by simp
next
  case (Cons p ps)
  from Cons.prems obtain parts preds' where
    s: "save_predictions [0..<ns] (window_start L Ow p) Ow parts preds = Inr preds'"
    and rest: "tile_loop infer ns padded L Iw Ow ps preds' = Inr r"
    by (auto simp: Let_def split: sum.splits)
  from save_predictions_ncols [OF s] Cons.IH [OF rest] show ?case by simp
qed

lemma predict_windows_ncols:
  assumes "predict_windows infer ns m Iw Ow = Inr r"
  shows "length r = ns \<and> (\<forall>p\<in>set r. ncols p = ncols m)"
proof -
  from assms obtain padded ps where
    "tile_loop infer ns padded (length (rws m)) Iw Ow ps
       (replicate ns (np_zeros (length (rws m)) (ncols m))) = Inr r"
    by (auto simp: predict_windows_def Let_def split: sum.splits)
  from tile_loop_ncols [OF this]
  have l: "length r = ns" and n: "\<forall>i<ns. ncols (r ! i) = ncols m"
    by (simp_all add: np_zeros_def)
  have "ncols p = ncols m" if "p \<in> set r" for p
    using that n l by (auto simp: in_set_conv_nth)
  then show ?thesis using l by simp
qed

lemma ncols_adapt_channels:
  "ncols (adapt_channels model_config a) =
     (if mono_downmix model_config then 1 else if ncols a = 1 then 2 else ncols a)"
  by (simp add: adapt_channels_def np_mean_axis1_def np_tile_cols_def)

lemma predict_estimates:
  assumes run: "predict resample infer model_config track_audio track_rate si so = Inr estimates"
  shows "\<exists>preds. predict_track resample infer model_config track_audio track_rate si so = Inr preds \<and>
     (\<forall>(name, est)\<in>set estimates. \<exists>pred\<in>set preds.
        est = (if mono_downmix model_config \<and> shape track_audio ! 1 > 1
               then np_tile_cols (resample ''kaiser_best'' pred (expected_sr model_config) track_rate)
                      (shape track_audio ! 1)
               else resample ''kaiser_best'' pred (expected_sr model_config) track_rate))"
proof -
  let ?C = "shape track_audio ! 1"
  let ?f = "\<lambda>pred. if mono_downmix model_config \<and> ?C > 1
               then np_tile_cols (resample ''kaiser_best'' pred (expected_sr model_config) track_rate) ?C
               else resample ''kaiser_best'' pred (expected_sr model_config) track_rate"
  from run obtain preds where
    pt: "predict_track resample infer model_config track_audio track_rate si so = Inr preds"
    by (auto simp: predict_def Let_def split: if_splits sum.splits)
  define pa where "pa = (if mono_downmix model_config \<and> ?C > 1
        then map (\<lambda>pred. np_tile_cols pred ?C)
               (map (\<lambda>pred. resample ''kaiser_best'' pred (expected_sr model_config) track_rate) preds)
        else map (\<lambda>pred. resample ''kaiser_best'' pred (expected_sr model_config) track_rate) preds)"
  have pa: "pa = map ?f preds"
    unfolding pa_def by (cases "mono_downmix model_config"; cases "?C > 1") simp_all
  have pr: "predict resample infer model_config track_audio track_rate si so =
      (if length (shape track_audio) < 2 then Inl IndexError
       else if task model_config = ''voice'' then
                 (if length pa < 2 then Inl IndexError
                  else Inr [(''vocals'', pa ! 1), (''accompaniment'', pa ! 0)])
               else
                 (if length pa < 4 then Inl IndexError
                  else Inr [(''bass'', pa ! 0), (''drums'', pa ! 1),
                            (''other'', pa ! 2), (''vocals'', pa ! 3)]))"
    unfolding predict_def Let_def pt pa_def by simp
  have lp: "length pa = length preds" by (simp add: pa)
  have nth: "\<exists>pred\<in>set preds. pa ! i = ?f pred" if "i < length preds" for i
    using that unfolding pa by (intro bexI [of _ "preds ! i"]) simp_all
  have "\<forall>(name, est)\<in>set estimates. \<exists>pred\<in>set preds. est = ?f pred"
  proof (cases "task model_config = ''voice''")
    case True
    with run pr have est: "estimates = [(''vocals'', pa ! 1), (''accompaniment'', pa ! 0)]"
      and "2 \<le> length pa"
      by (auto split: if_splits)
    then have "0 < length preds" "1 < length preds" using lp by linarith+
    then show ?thesis unfolding est using nth by simp
  next
    case False
    with run pr have est: "estimates = [(''bass'', pa ! 0), (''drums'', pa ! 1),
                            (''other'', pa ! 2), (''vocals'', pa ! 3)]"
      and "4 \<le> length pa"
      by (auto split: if_splits)
    then have "0 < length preds" "1 < length preds" "2 < length preds" "3 < length preds"
      using lp by linarith+
    then show ?thesis unfolding est using nth by simp
  qed
  with pt show ?thesis by blast
qed

lemma predict_channel_count:
  assumes run: "predict resample infer model_config track_audio track_rate si so = Inr estimates"
    and res: "\<forall>t a r r'. ncols (resample t a r r') = ncols a"
    and C: "1 \<le> shape track_audio ! 1"
  shows "\<forall>(name, est)\<in>set estimates.
     ncols est = (if \<not> mono_downmix model_config \<and> shape track_audio ! 1 = 1 then 2
                  else shape track_audio ! 1)"
proof -
  let ?C = "shape track_audio ! 1"
  from predict_estimates [OF run] obtain preds where
    pt: "predict_track resample infer model_config track_audio track_rate si so = Inr preds"
    and est: "\<forall>(name, est)\<in>set estimates. \<exists>pred\<in>set preds.
        est = (if mono_downmix model_config \<and> ?C > 1
               then np_tile_cols (resample ''kaiser_best'' pred (expected_sr model_config) track_rate) ?C
               else resample ''kaiser_best'' pred (expected_sr model_config) track_rate)"
    by blast
  let ?m = "resample ''kaiser_fast'' (adapt_channels model_config (as_arr2 track_audio)) track_rate
      (expected_sr model_config)"
  from pt have "predict_windows infer (num_sources model_config) ?m (fst (snd si)) (fst (snd so)) =
      Inr preds"
    by (auto simp: predict_track_def Let_def split: if_splits)
  from predict_windows_ncols [OF this] have "\<forall>p\<in>set preds. ncols p = ncols ?m" by simp
  moreover have "ncols ?m = (if mono_downmix model_config then 1 else if ?C = 1 then 2 else ?C)"
    using res by (simp add: ncols_adapt_channels as_arr2_def Let_def)
  ultimately have pc: "\<forall>p\<in>set preds. ncols p =
      (if mono_downmix model_config then 1 else if ?C = 1 then 2 else ?C)"
    by simp
  show ?thesis
  proof (clarify)
    fix name est assume "(name, est) \<in> set estimates"
    with est obtain pred where p: "pred \<in> set preds"
      and e: "est = (if mono_downmix model_config \<and> ?C > 1
               then np_tile_cols (resample ''kaiser_best'' pred (expected_sr model_config) track_rate) ?C
               else resample ''kaiser_best'' pred (expected_sr model_config) track_rate)"
      by blast
    have "ncols pred = (if mono_downmix model_config then 1 else if ?C = 1 then 2 else ?C)"
      using pc p by simp
    then show "ncols est = (if \<not> mono_downmix model_config \<and> ?C = 1 then 2 else ?C)"
      unfolding e using res C by (auto simp: np_tile_cols_def)
  qed
qed

text \<open>
  Claim C6, as the code has it.  With \<^verbatim>\<open>mono_downmix\<close> every frame of the mixture is
  replaced by the mean of its channels; without it a one-channel mixture has its channel
  duplicated, and any other mixture is left as it is.  Every estimate that
  \<^verbatim>\<open>predict\<close> returns is a prediction of \<^verbatim>\<open>predict_track\<close>, resampled, and with
  \<^verbatim>\<open>mono_downmix\<close> and more than one channel in the track its columns repeated
  once per channel of the track.  When the resampler keeps the channel count, the
  estimates have the channel count of the track, except for a one-channel track without
  \<^verbatim>\<open>mono_downmix\<close>, whose estimates have 2 channels.
\<close>

theorem channel_adaptation:
  "(mono_downmix model_config \<longrightarrow>
      adapt_channels model_config mix =
        Arr2 1 (map (\<lambda>r. [fl_div (np_sum r) (Fin (real (ncols mix)))]) (rws mix))) \<and>
   (\<not> mono_downmix model_config \<and> ncols mix = 1 \<longrightarrow>
      adapt_channels model_config mix = Arr2 2 (map (\<lambda>r. r @ r) (rws mix))) \<and>
   (\<not> mono_downmix model_config \<and> ncols mix \<noteq> 1 \<longrightarrow> adapt_channels model_config mix = mix) \<and>
   (predict resample infer model_config track_audio track_rate si so = Inr estimates \<longrightarrow>
      (\<exists>preds. predict_track resample infer model_config track_audio track_rate si so = Inr preds \<and>
         (\<forall>(name, est)\<in>set estimates. \<exists>pred\<in>set preds.
            est = (if mono_downmix model_config \<and> shape track_audio ! 1 > 1
                   then np_tile_cols
                          (resample ''kaiser_best'' pred (expected_sr model_config) track_rate)
                          (shape track_audio ! 1)
                   else resample ''kaiser_best'' pred (expected_sr model_config) track_rate)))) \<and>
   (predict resample infer model_config track_audio track_rate si so = Inr estimates \<and>
    (\<forall>t a r r'. ncols (resample t a r r') = ncols a) \<and> 1 \<le> shape track_audio ! 1 \<longrightarrow>
      (\<forall>(name, est)\<in>set estimates.
         ncols est = (if \<not> mono_downmix model_config \<and> shape track_audio ! 1 = 1 then 2
                      else shape track_audio ! 1)))"
proof (intro conjI impI)
  show "adapt_channels model_config mix =
        Arr2 1 (map (\<lambda>r. [fl_div (np_sum r) (Fin (real (ncols mix)))]) (rws mix))"
    if "mono_downmix model_config"
    using that by (simp add: adapt_channels_def np_mean_axis1_def)
  show "adapt_channels model_config mix = Arr2 2 (map (\<lambda>r. r @ r) (rws mix))"
    if "\<not> mono_downmix model_config \<and> ncols mix = 1"
    using that by (simp add: adapt_channels_def np_tile_cols_def numeral_2_eq_2)
  show "adapt_channels model_config mix = mix" if "\<not> mono_downmix model_config \<and> ncols mix \<noteq> 1"
    using that by (simp add: adapt_channels_def)
  show "\<exists>preds. predict_track resample infer model_config track_audio track_rate si so = Inr preds \<and>
         (\<forall>(name, est)\<in>set estimates. \<exists>pred\<in>set preds.
            est = (if mono_downmix model_config \<and> shape track_audio ! 1 > 1
                   then np_tile_cols
                          (resample ''kaiser_best'' pred (expected_sr model_config) track_rate)
                          (shape track_audio ! 1)
                   else resample ''kaiser_best'' pred (expected_sr model_config) track_rate))"
    if "predict resample infer model_config track_audio track_rate si so = Inr estimates"
    using that by (rule predict_estimates)
  show "\<forall>(name, est)\<in>set estimates.
         ncols est = (if \<not> mono_downmix model_config \<and> shape track_audio ! 1 = 1 then 2
                      else shape track_audio ! 1)"
    if "predict resample infer model_config track_audio track_rate si so = Inr estimates \<and>
      (\<forall>t a r r'. ncols (resample t a r r') = ncols a) \<and> 1 \<le> shape track_audio ! 1"
    using that by (intro predict_channel_count) blast+
qed

text \<open>
  The claim as the specification words it fails on a one-channel track without
  \<^verbatim>\<open>mono_downmix\<close>: the estimates have two channels.
\<close>

theorem mono_input_stereo_estimates:
  "shape (NDArray [2, 1] [Fin 3, Fin 4]) ! 1 = 1 \<and>
   predict (\<lambda>t a r r'. a)
     (\<lambda>w. Inr [Arr2 2 [[Fin 1, Fin 1], [Fin 2, Fin 2]], Arr2 2 [[Fin 5, Fin 5], [Fin 6, Fin 6]]])
     \<lparr>mono_downmix = False, expected_sr = 22050, num_sources = 2, task = ''voice''\<rparr>
     (NDArray [2, 1] [Fin 3, Fin 4]) 22050 (1, 2, 2) (1, 2, 2) =
     Inr [(''vocals'', Arr2 2 [[Fin 5, Fin 5], [Fin 6, Fin 6]]),
          (''accompaniment'', Arr2 2 [[Fin 1, Fin 1], [Fin 2, Fin 2]])]"
  by (simp add: predict_def predict_track_def predict_windows_def adapt_channels_def as_arr2_def
      np_tile_cols_def np_zeros_def np_pad_rows_def py_range_def window_start_def get_rows_def
      set_rows_def slice_index_def upt_rec)

lemma rep2: "replicate 2 x = [x, x]"
  by (simp add: numeral_2_eq_2)

theorem channel_adaptation_witness:
  "mono_downmix \<lparr>mono_downmix = True, expected_sr = 22050, num_sources = 2, task = ''voice''\<rparr> \<and>
   adapt_channels \<lparr>mono_downmix = True, expected_sr = 22050, num_sources = 2, task = ''voice''\<rparr>
     (Arr2 2 [[Fin 1, Fin 3], [Fin 2, Fin 6]]) = Arr2 1 [[Fin 2], [Fin 4]] \<and>
   \<not> mono_downmix \<lparr>mono_downmix = False, expected_sr = 22050, num_sources = 2, task = ''voice''\<rparr> \<and>
   ncols (Arr2 1 [[Fin 3], [Fin 4]]) = 1 \<and>
   adapt_channels \<lparr>mono_downmix = False, expected_sr = 22050, num_sources = 2, task = ''voice''\<rparr>
     (Arr2 1 [[Fin 3], [Fin 4]]) = Arr2 2 [[Fin 3, Fin 3], [Fin 4, Fin 4]] \<and>
   ncols (Arr2 3 [[Fin 1, Fin 2, Fin 3]]) \<noteq> 1 \<and>
   adapt_channels \<lparr>mono_downmix = False, expected_sr = 22050, num_sources = 2, task = ''voice''\<rparr>
     (Arr2 3 [[Fin 1, Fin 2, Fin 3]]) = Arr2 3 [[Fin 1, Fin 2, Fin 3]] \<and>
   predict (\<lambda>t a r r'. a)
     (\<lambda>w. Inr [Arr2 1 [[Fin 1], [Fin 2]], Arr2 1 [[Fin 5], [Fin 6]]])
     \<lparr>mono_downmix = True, expected_sr = 22050, num_sources = 2, task = ''voice''\<rparr>
     (NDArray [2, 2] [Fin 1, Fin 3, Fin 2, Fin 6]) 22050 (1, 2, 1) (1, 2, 1) =
     Inr [(''vocals'', Arr2 2 [[Fin 5, Fin 5], [Fin 6, Fin 6]]),
          (''accompaniment'', Arr2 2 [[Fin 1, Fin 1], [Fin 2, Fin 2]])] \<and>
   1 \<le> shape (NDArray [2, 2] [Fin 1, Fin 3, Fin 2, Fin 6]) ! 1 \<and>
   ncols (Arr2 2 [[Fin 5, Fin 5], [Fin 6, Fin 6]]) =
     shape (NDArray [2, 2] [Fin 1, Fin 3, Fin 2, Fin 6]) ! 1"
proof -
  let ?on = "\<lparr>mono_downmix = True, expected_sr = 22050, num_sources = 2, task = ''voice''\<rparr>"
  let ?off = "\<lparr>mono_downmix = False, expected_sr = 22050, num_sources = 2, task = ''voice''\<rparr>"
  let ?R = "\<lambda>t a r r'. a :: arr2"
  let ?F = "\<lambda>w :: arr2. Inr [Arr2 1 [[Fin 1], [Fin 2]], Arr2 1 [[Fin 5], [Fin 6]]] :: error + arr2 list"
  let ?A = "NDArray [2, 2] [Fin 1, Fin 3, Fin 2, Fin 6]"
  let ?E = "[(''vocals'', Arr2 2 [[Fin 5, Fin 5], [Fin 6, Fin 6]]),
          (''accompaniment'', Arr2 2 [[Fin 1, Fin 1], [Fin 2, Fin 2]])]"
  have run: "predict ?R ?F ?on ?A 22050 (1, 2, 1) (1, 2, 1) = Inr ?E"
    by (simp add: predict_def predict_track_def predict_windows_def adapt_channels_def as_arr2_def
      np_tile_cols_def np_mean_axis1_def np_zeros_def np_pad_rows_def py_range_def
      window_start_def get_rows_def set_rows_def slice_index_def upt_rec np_sum_def
      rep2)
  show ?thesis
    using channel_adaptation [of ?on "Arr2 2 [[Fin 1, Fin 3], [Fin 2, Fin 6]]" ?R ?F ?A 22050
        "(1, 2, 1)" "(1, 2, 1)" ?E]
      channel_adaptation [of ?off "Arr2 1 [[Fin 3], [Fin 4]]" ?R ?F ?A 22050
        "(1, 2, 1)" "(1, 2, 1)" ?E]
      channel_adaptation [of ?off "Arr2 3 [[Fin 1, Fin 2, Fin 3]]" ?R ?F ?A 22050
        "(1, 2, 1)" "(1, 2, 1)" ?E]
      run
    by (simp add: np_sum_def)
qed

subsection \<open>\<^verbatim>\<open>write_wav_skip_existing\<close>\<close>

text \<open>
  Claim C9.  When a file exists at the path, \<^verbatim>\<open>write_wav_skip_existing\<close> leaves
  the files as they are and prints the warning; when none exists it writes the audio as
  16-bit PCM and prints nothing.  So the files change only if no file existed at the path.
\<close>

theorem write_wav_skip_existing_frame:
  "(path \<in> dom (disk w) \<longrightarrow>
      disk (write_wav_skip_existing sf_write path y sr norm_flag w) = disk w \<and>
      stdout (write_wav_skip_existing sf_write path y sr norm_flag w) =
        stdout w @ [''WARNING: Tried writing audio to '' @ path @
                    '', but audio file exists already. Skipping file!'']) \<and>
   (path \<notin> dom (disk w) \<longrightarrow>
      disk (write_wav_skip_existing sf_write path y sr norm_flag w) =
        sf_write path y sr ''PCM_16'' (disk w) \<and>
      stdout (write_wav_skip_existing sf_write path y sr norm_flag w) = stdout w) \<and>
   (disk (write_wav_skip_existing sf_write path y sr norm_flag w) \<noteq> disk w \<longrightarrow>
      path \<notin> dom (disk w))"
  by (simp add: write_wav_skip_existing_def)

theorem write_wav_skip_existing_frame_witness:
  "''a.wav'' \<in> dom (disk \<lparr>disk = [''a.wav'' \<mapsto> [1::int, 2]], stdout = []\<rparr>) \<and>
   disk (write_wav_skip_existing (\<lambda>p y sr t fs. fs(p \<mapsto> y)) ''a.wav'' [7, 8] 44100 False
            \<lparr>disk = [''a.wav'' \<mapsto> [1::int, 2]], stdout = []\<rparr>) ''a.wav'' = Some [1, 2] \<and>
   stdout (write_wav_skip_existing (\<lambda>p y sr t fs. fs(p \<mapsto> y)) ''a.wav'' [7, 8] 44100 False
            \<lparr>disk = [''a.wav'' \<mapsto> [1::int, 2]], stdout = []\<rparr>) =
     [''WARNING: Tried writing audio to a.wav, but audio file exists already. Skipping file!''] \<and>
   ''b.wav'' \<notin> dom (disk \<lparr>disk = [''a.wav'' \<mapsto> [1::int, 2]], stdout = []\<rparr>) \<and>
   disk (write_wav_skip_existing (\<lambda>p y sr t fs. fs(p \<mapsto> y)) ''b.wav'' [7, 8] 44100 False
            \<lparr>disk = [''a.wav'' \<mapsto> [1::int, 2]], stdout = []\<rparr>) ''b.wav'' = Some [7, 8]"
  using write_wav_skip_existing_frame
      [of "''a.wav''" "\<lparr>disk = [''a.wav'' \<mapsto> [1::int, 2]], stdout = []\<rparr>"
        "\<lambda>p y sr t fs. fs(p \<mapsto> y)" "[7, 8]" 44100 False]
    write_wav_skip_existing_frame
      [of "''b.wav''" "\<lparr>disk = [''a.wav'' \<mapsto> [1::int, 2]], stdout = []\<rparr>"
        "\<lambda>p y sr t fs. fs(p \<mapsto> y)" "[7, 8]" 44100 False]
  by simp

end
